theory Spec2Isabelle
  imports Main "HOL-Library.Word" "HOL-Library.Multiset"
begin

section \<open>The redis job broker: pkg/jobs/redis_broker.go\<close>

text \<open>
  The broker is concurrent Go code. Each function of the source is embedded as the
  sequential function of the goroutine that runs it. Whatever that goroutine reads from
  outside itself is an explicit argument: the value an atomic load returns, the case a
  \<^verbatim>\<open>select\<close> takes, the draw of the random generator, the answers of the redis
  client, of the job store and of the worker pools. Whatever it does to the outside is
  an \<open>event\<close> of the trace it returns, in program order.
\<close>

subsection \<open>Errors\<close>

text \<open>
  Go's \<^verbatim>\<open>error\<close> values. \<open>nil\<close> is \<open>None\<close> of \<open>error option\<close>.
  \<open>CtxError\<close> is what \<^verbatim>\<open>ctx.Err()\<close> returns, \<open>ExtError\<close> an error of a
  collaborator (redis client, job store, worker pool), \<open>MultiError\<close> the
  \<^verbatim>\<open>*multierror.Error\<close> of hashicorp/go-multierror with its member errors.
\<close>

datatype error =
    ErrClosed
  | ErrUnknownWorker
  | CtxError string
  | ExtError string
  | MultiError "error list"

text \<open>
  \<^verbatim>\<open>multierror.Append(err, e)\<close> with one non-nil \<open>e\<close>: the members of a multi-error
  argument are flattened one level, any other error becomes one member.
\<close>

fun members :: "error \<Rightarrow> error list" where
  "members (MultiError es) = es"
| "members e = [e]"

fun multierror_Append :: "error option \<Rightarrow> error \<Rightarrow> error" where
  "multierror_Append None e = MultiError (members e)"
| "multierror_Append (Some err) e = MultiError (members err @ members e)"

subsection \<open>Constants\<close>

definition redisPrefix :: string where
  "redisPrefix = ''j/''"

definition redisHighPrioritySuffix :: string where
  "redisHighPrioritySuffix = ''/p0''"

text \<open>\<^verbatim>\<open>time.Duration\<close> counts nanoseconds.\<close>

definition Millisecond :: int where
  "Millisecond = 1000000"

definition Second :: int where
  "Second = 1000 * Millisecond"

definition redisBRPopTimeout :: int where
  "redisBRPopTimeout = 10 * Second"

subsection \<open>Data\<close>

record WorkerConfig =
  WorkerType :: string
  Concurrency :: int

text \<open>A pool handle is opaque to the broker: it is what \<^verbatim>\<open>NewWorker(conf)\<close> made.\<close>

datatype Worker = NewWorker WorkerConfig

record JobRequest =
  ReqWorkerType :: string
  ReqDomain :: string
  ReqManual :: bool

record Job =
  JobID :: string
  Domain :: string
  JobWorkerType :: string
  Manual :: bool

text \<open>
  A feed channel \<^verbatim>\<open>make(chan *Job)\<close> is named by the position of its pool in
  \<^verbatim>\<open>b.workers\<close>: every pool gets a channel of its own.
\<close>

type_synonym chan = nat

text \<open>
  The fields of \<^verbatim>\<open>redisBroker\<close> that change. The broker has one \<^verbatim>\<open>client\<close> and one
  channel \<^verbatim>\<open>closed\<close>, set by \<^verbatim>\<open>NewRedisBroker\<close> and never reassigned: the events on
  them need no handle.
\<close>

record redisBroker =
  workers :: "Worker list"
  workersTypes :: "string list"
  running :: "32 word"

definition NewRedisBroker :: redisBroker where
  "NewRedisBroker = \<lparr>workers = [], workersTypes = [], running = 0\<rparr>"

text \<open>
  The flag is a \<^verbatim>\<open>uint32\<close>; the code stores 0 and 1 in it and nothing else.
  0 is read as "not running" (never started, or shut down), 1 as Running.
\<close>

definition flagOK :: "redisBroker \<Rightarrow> bool" where
  "flagOK b = (running b = 0 \<or> running b = 1)"

subsection \<open>Events\<close>

datatype goroutine =
    GoPollLoop string chan
  | GoShutdown Worker

datatype warning =
    InvalidKey string
  | InvalidVal string
  | CannotFindJob string string error

datatype event =
    EvWorkerStart Worker chan "error option"
  | EvGo goroutine
  | EvInfofStarted nat
  | EvWarnfLimiting int
  | EvWarnfPleaseUpdate
  | EvSetNbSlots int
  | EvPrintShuttingDown
  | EvPrintFailed error
  | EvPrintOk
  | EvClientClose
  | EvCtxDone
  | EvRecvClosed
  | EvRecvErr "error option"
  | EvSendClosed
  | EvBRPop int string string
  | EvSleep int
  | EvWarnf warning
  | EvGet string string
  | EvSendJob chan Job
  | EvCreate Job "error + Job"
  | EvLPush string string "error option"

subsection \<open>StartWorkers and WorkersTypes\<close>

text \<open>
  The loop over the list. \<open>wStart w ch\<close> is what \<^verbatim>\<open>w.Start(ch)\<close> returns. A failing
  start returns at once, after the pool was appended.
\<close>

fun startLoop ::
  "(Worker \<Rightarrow> chan \<Rightarrow> error option) \<Rightarrow> WorkerConfig list \<Rightarrow> redisBroker
    \<Rightarrow> redisBroker \<times> event list \<times> error option" where
  "startLoop wStart [] b = (b, [], None)"
| "startLoop wStart (conf # ws) b =
    (let b1 = b\<lparr>workersTypes := workersTypes b @ [WorkerType conf]\<rparr> in
     if Concurrency conf \<le> 0 then startLoop wStart ws b1
     else
       let ch = length (workers b1);
           w = NewWorker conf;
           b2 = b1\<lparr>workers := workers b1 @ [w]\<rparr>
       in case wStart w ch of
            Some err \<Rightarrow> (b2, [EvWorkerStart w ch (Some err)], Some err)
          | None \<Rightarrow>
              (case startLoop wStart ws b2 of
                 (b3, evs, r) \<Rightarrow>
                   (b3,
                    EvWorkerStart w ch None
                      # EvGo (GoPollLoop (redisPrefix @ WorkerType conf) ch) # evs,
                    r)))"

text \<open>
  \<open>nbWorkers\<close> is \<^verbatim>\<open>config.GetConfig().Jobs.NbWorkers\<close>. The compare-and-swap of
  \<^verbatim>\<open>running\<close> from 0 to 1 is one step: it fails exactly when the flag is not 0.
\<close>

definition StartWorkers ::
  "(Worker \<Rightarrow> chan \<Rightarrow> error option) \<Rightarrow> int \<Rightarrow> redisBroker \<Rightarrow> WorkerConfig list
    \<Rightarrow> redisBroker \<times> event list \<times> error option" where
  "StartWorkers wStart nbWorkers b ws =
    (if running b \<noteq> 0 then (b, [], Some ErrClosed)
     else
       case startLoop wStart ws (b\<lparr>running := 1\<rparr>) of
         (b', evs, Some err) \<Rightarrow> (b', evs, Some err)
       | (b', evs, None) \<Rightarrow>
           (b',
            evs
              @ (if length (workers b') > 0
                 then [EvInfofStarted (length (workers b'))] else [])
              @ (if length (workers b') > 0 \<and> nbWorkers > 0
                 then [EvWarnfLimiting nbWorkers, EvWarnfPleaseUpdate, EvSetNbSlots nbWorkers]
                 else []),
            None))"

definition WorkersTypes :: "redisBroker \<Rightarrow> string list" where
  "WorkersTypes b = workersTypes b"

subsection \<open>ShutdownWorkers\<close>

text \<open>
  One \<^verbatim>\<open>select\<close> of the waiting loop takes the case \<^verbatim>\<open><-ctx.Done()\<close> (with the value
  of \<^verbatim>\<open>ctx.Err()\<close>) or the case \<^verbatim>\<open><-b.closed\<close>. The argument lists the cases taken,
  in order. The case of the context is ready once the context has expired; when a
  token is ready too, Go takes either one. \<open>SelDone err\<close> is a select that takes the
  case of the context, \<open>err\<close> being \<^verbatim>\<open>ctx.Err()\<close>. \<open>SelClosed x\<close> is a select that
  takes a token, \<open>x\<close> being \<^verbatim>\<open>ctx.Err()\<close> at that moment: \<open>None\<close> while the context
  has not expired, \<open>Some err\<close> when it has and the token was taken all the same. When
  the list is used up no case ever becomes ready and the call blocks.
\<close>

datatype selected = SelDone error | SelClosed "error option"

datatype 'a outcome = Returns 'a | Blocks

fun waitClosed :: "nat \<Rightarrow> selected list \<Rightarrow> event list \<times> error option outcome" where
  "waitClosed 0 sel = ([], Returns None)"
| "waitClosed (Suc n) [] = ([], Blocks)"
| "waitClosed (Suc n) (SelDone err # sel) = ([EvCtxDone, EvPrintFailed err], Returns (Some err))"
| "waitClosed (Suc n) (SelClosed x # sel) =
    (case waitClosed n sel of (evs, r) \<Rightarrow> (EvRecvClosed # evs, r))"

text \<open>
  The goroutines \<^verbatim>\<open>errs <- w.Shutdown(ctx)\<close> answer in any order. \<open>arrival\<close> picks,
  for each receive, one of the answers still pending (position \<open>k mod\<close> their number;
  the first one when \<open>arrival\<close> is used up).
\<close>

definition remove_nth :: "nat \<Rightarrow> 'a list \<Rightarrow> 'a list" where
  "remove_nth k xs = take k xs @ drop (Suc k) xs"

fun recvErrs :: "nat \<Rightarrow> nat list \<Rightarrow> 'a list \<Rightarrow> 'a list" where
  "recvErrs 0 arrival pending = []"
| "recvErrs (Suc n) arrival [] = []"
| "recvErrs (Suc n) [] (p # ps) = p # recvErrs n [] ps"
| "recvErrs (Suc n) (k # ks) (p # ps) =
    (let j = k mod length (p # ps)
     in (p # ps) ! j # recvErrs n ks (remove_nth j (p # ps)))"

text \<open>The loop that folds the received errors into \<^verbatim>\<open>errm\<close>.\<close>

fun collectErrs :: "error option \<Rightarrow> error option list \<Rightarrow> error option" where
  "collectErrs errm [] = errm"
| "collectErrs errm (None # rs) = collectErrs errm rs"
| "collectErrs errm (Some err # rs) = collectErrs (Some (multierror_Append errm err)) rs"

text \<open>
  \<open>wShutdown i\<close> is what \<^verbatim>\<open>Shutdown(ctx)\<close> of the \<open>i\<close>-th pool returns; every pool
  is taken to return from it, as its contract with the context says. The compare-and-swap
  of \<^verbatim>\<open>running\<close> from 1 to 0 fails exactly when the flag is not 1. The deferred
  \<^verbatim>\<open>b.client.Close()\<close> is registered after the two early returns and runs when the
  function returns.
\<close>

definition ShutdownWorkers ::
  "selected list \<Rightarrow> (nat \<Rightarrow> error option) \<Rightarrow> nat list \<Rightarrow> redisBroker
    \<Rightarrow> redisBroker \<times> event list \<times> error option outcome" where
  "ShutdownWorkers sel wShutdown arrival b =
    (if running b \<noteq> 1 then (b, [], Returns (Some ErrClosed))
     else
       let b' = b\<lparr>running := 0\<rparr>; n = length (workers b') in
       if n = 0 then (b', [], Returns None)
       else
         case waitClosed n sel of
           (evs, Blocks) \<Rightarrow> (b', EvPrintShuttingDown # evs, Blocks)
         | (evs, Returns (Some err)) \<Rightarrow>
             (b', EvPrintShuttingDown # evs @ [EvClientClose], Returns (Some err))
         | (evs, Returns None) \<Rightarrow>
             (let results = recvErrs n arrival (map wShutdown [0..<n]);
                  errm = collectErrs None results
              in (b',
                  EvPrintShuttingDown # evs
                    @ map (\<lambda>w. EvGo (GoShutdown w)) (workers b')
                    @ map EvRecvErr results
                    @ [case errm of Some e \<Rightarrow> EvPrintFailed e | None \<Rightarrow> EvPrintOk]
                    @ [EvClientClose],
                  Returns errm)))"

subsection \<open>pollLoop\<close>

text \<open>
  \<^verbatim>\<open>strings.SplitN(s, sep, 2)\<close> for a separator of one character: the text before the
  first separator and the text after it, or \<open>s\<close> alone when it holds no separator.
\<close>

definition SplitN2 :: "string \<Rightarrow> char \<Rightarrow> string list" where
  "SplitN2 s sep =
    (if sep \<in> set s
     then [takeWhile (\<lambda>c. c \<noteq> sep) s, tl (dropWhile (\<lambda>c. c \<noteq> sep) s)]
     else [s])"

text \<open>
  What one iteration reads from outside: the flag loaded at its head, the draw
  \<^verbatim>\<open>rng.Intn(3)\<close>, the pair \<^verbatim>\<open>BRPop(...).Result()\<close> returns, and the job store as
  \<^verbatim>\<open>Get(domain, jobID)\<close> answers at that moment.
\<close>

record iteration =
  loadRunning :: "32 word"
  intn3 :: nat
  brpopResult :: "string list \<times> error option"
  getJob :: "string \<Rightarrow> string \<Rightarrow> error + Job"

definition pollKeys :: "string \<Rightarrow> nat \<Rightarrow> string \<times> string" where
  "pollKeys key r =
    (let keyP0 = key @ redisHighPrioritySuffix; keyP1 = key
     in if r = 0 then (keyP1, keyP0) else (keyP0, keyP1))"

text \<open>The body of the loop after the test of the flag.\<close>

definition pollIteration :: "string \<Rightarrow> chan \<Rightarrow> iteration \<Rightarrow> event list" where
  "pollIteration key ch it =
    (case pollKeys key (intn3 it) of
       (keyP0, keyP1) \<Rightarrow>
         EvBRPop redisBRPopTimeout keyP0 keyP1 #
         (case brpopResult it of
            (results, err) \<Rightarrow>
              if err \<noteq> None \<or> length results < 2 then [EvSleep (100 * Millisecond)]
              else
                let rkey = results ! 0; rval = results ! 1 in
                if length rkey < length redisPrefix then [EvWarnf (InvalidKey rkey)]
                else
                  let parts = SplitN2 rval (CHR ''/'') in
                  if length parts \<noteq> 2 then [EvWarnf (InvalidVal rval)]
                  else
                    let domain = parts ! 0; jobID = parts ! 1 in
                    EvGet domain jobID #
                    (case getJob it domain jobID of
                       Inl e \<Rightarrow> [EvWarnf (CannotFindJob (parts ! 1) (parts ! 0) e)]
                     | Inr job \<Rightarrow> [EvSendJob ch job])))"

text \<open>
  The loop over the iterations the environment lets it run; the pool is taken to
  receive the jobs sent on its feed channel, as its slots do. When the list is used up
  the loop has not left its \<^verbatim>\<open>for\<close>. When it returns from the \<^verbatim>\<open>for\<close> the deferred
  send on \<^verbatim>\<open>b.closed\<close> runs. That channel is unbuffered and its only receiver is the
  waiting loop of ShutdownWorkers: \<open>received\<close> says whether that loop takes the token.
  When it does, the token is written and pollLoop exits. When it does not (ShutdownWorkers
  has returned the context error, or has its tokens from the other loops) the send
  blocks for ever: no token is written and pollLoop does not exit.
\<close>

datatype loop_state = Exited | Looping | SendBlocked

fun pollLoop ::
  "string \<Rightarrow> chan \<Rightarrow> bool \<Rightarrow> iteration list \<Rightarrow> event list \<times> loop_state" where
  "pollLoop key ch received [] = ([], Looping)"
| "pollLoop key ch received (it # its) =
    (if loadRunning it = 0
     then (if received then ([EvSendClosed], Exited) else ([], SendBlocked))
     else case pollLoop key ch received its of
            (evs, st) \<Rightarrow> (pollIteration key ch it @ evs, st))"

subsection \<open>PushJob\<close>

text \<open>
  Modelled from the spec: \<^verbatim>\<open>utils.IsInArray\<close> is not among the sources; the spec reads
  the test as "\<open>req.worker_type\<close> is not in \<open>worker_types\<close>".
\<close>

definition IsInArray :: "string \<Rightarrow> string list \<Rightarrow> bool" where
  "IsInArray s arr = (s \<in> set arr)"

text \<open>
  \<open>newJob\<close> is \<^verbatim>\<open>NewJob\<close>, \<open>create j\<close> what \<^verbatim>\<open>j.Create()\<close> does to the job it is
  called on (an error, or the job as persisted), \<open>lpush key val\<close> what
  \<^verbatim>\<open>b.client.LPush(key, val).Err()\<close> returns. None of the three is among the sources.
\<close>

definition PushJob ::
  "(JobRequest \<Rightarrow> Job) \<Rightarrow> (Job \<Rightarrow> error + Job) \<Rightarrow> (string \<Rightarrow> string \<Rightarrow> error option)
    \<Rightarrow> redisBroker \<Rightarrow> JobRequest \<Rightarrow> event list \<times> (error + Job)" where
  "PushJob newJob create lpush b req =
    (if running b = 0 then ([], Inl ErrClosed)
     else if \<not> IsInArray (ReqWorkerType req) (workersTypes b) then ([], Inl ErrUnknownWorker)
     else
       let job0 = newJob req in
       case create job0 of
         Inl err \<Rightarrow> ([EvCreate job0 (Inl err)], Inl err)
       | Inr job \<Rightarrow>
           (let key0 = redisPrefix @ JobWorkerType job;
                val = Domain job @ ''/'' @ JobID job;
                key = (if Manual job then key0 @ redisHighPrioritySuffix else key0)
            in case lpush key val of
                 Some err \<Rightarrow> ([EvCreate job0 (Inr job), EvLPush key val (Some err)], Inl err)
               | None \<Rightarrow> ([EvCreate job0 (Inr job), EvLPush key val None], Inr job)))"

text \<open>What a trace did to the store and to the queues.\<close>

fun persisted :: "event list \<Rightarrow> Job list" where
  "persisted [] = []"
| "persisted (EvCreate j (Inr job) # evs) = job # persisted evs"
| "persisted (e # evs) = persisted evs"

fun enqueued :: "event list \<Rightarrow> (string \<times> string) list" where
  "enqueued [] = []"
| "enqueued (EvLPush key val None # evs) = (key, val) # enqueued evs"
| "enqueued (e # evs) = enqueued evs"

fun pushAttempts :: "event list \<Rightarrow> (string \<times> string) list" where
  "pushAttempts [] = []"
| "pushAttempts (EvLPush key val r # evs) = (key, val) # pushAttempts evs"
| "pushAttempts (e # evs) = pushAttempts evs"

fun createAttempts :: "event list \<Rightarrow> Job list" where
  "createAttempts [] = []"
| "createAttempts (EvCreate j r # evs) = j # createAttempts evs"
| "createAttempts (e # evs) = createAttempts evs"

section \<open>Observations on traces\<close>

subsection \<open>What a trace of StartWorkers started\<close>

fun pollLoopsSpawned :: "event list \<Rightarrow> (chan \<times> string) list" where
  "pollLoopsSpawned [] = []"
| "pollLoopsSpawned (EvGo (GoPollLoop key ch) # evs) = (ch, key) # pollLoopsSpawned evs"
| "pollLoopsSpawned (e # evs) = pollLoopsSpawned evs"

fun poolsStarted :: "event list \<Rightarrow> (chan \<times> Worker) list" where
  "poolsStarted [] = []"
| "poolsStarted (EvWorkerStart w ch r # evs) = (ch, w) # poolsStarted evs"
| "poolsStarted (e # evs) = poolsStarted evs"

text \<open>The entries of a list with a concurrency above 0, in the order of the list.\<close>

definition polled :: "WorkerConfig list \<Rightarrow> WorkerConfig list" where
  "polled ws = filter (\<lambda>conf. 0 < Concurrency conf) ws"

subsection \<open>What a trace of ShutdownWorkers did\<close>

text \<open>
  A pool's \<^verbatim>\<open>Shutdown\<close> is invoked by the goroutine that ShutdownWorkers spawns for
  it; the spawn is the event of the trace.
\<close>

fun shutdownsInvoked :: "event list \<Rightarrow> Worker list" where
  "shutdownsInvoked [] = []"
| "shutdownsInvoked (EvGo (GoShutdown w) # evs) = w # shutdownsInvoked evs"
| "shutdownsInvoked (e # evs) = shutdownsInvoked evs"

fun isShutdown :: "event \<Rightarrow> bool" where
  "isShutdown (EvGo (GoShutdown w)) = True"
| "isShutdown e = False"

text \<open>
  The tokens taken from \<^verbatim>\<open>b.closed\<close>: all of them, and those taken before the first
  spawn of a pool's \<^verbatim>\<open>Shutdown\<close>.
\<close>

definition tokensReceived :: "event list \<Rightarrow> nat" where
  "tokensReceived tr = count_list tr EvRecvClosed"

definition tokensBeforeShutdown :: "event list \<Rightarrow> nat" where
  "tokensBeforeShutdown tr = count_list (takeWhile (\<lambda>e. \<not> isShutdown e) tr) EvRecvClosed"

text \<open>The non-nil errors of the answers, in the order received.\<close>

fun nonNil :: "'a option list \<Rightarrow> 'a list" where
  "nonNil [] = []"
| "nonNil (None # rs) = nonNil rs"
| "nonNil (Some e # rs) = e # nonNil rs"

text \<open>
  The schedule of the selects: a select that takes a token, and whether the context has
  expired at one of the selects of the waiting loop of \<open>n\<close> pools, that is before all
  \<open>n\<close> tokens are taken.
\<close>

fun tookToken :: "selected \<Rightarrow> bool" where
  "tookToken (SelClosed x) = True"
| "tookToken (SelDone err) = False"

fun expiredBeforeAll :: "nat \<Rightarrow> selected list \<Rightarrow> bool" where
  "expiredBeforeAll 0 sel = False"
| "expiredBeforeAll (Suc n) [] = False"
| "expiredBeforeAll (Suc n) (SelDone err # sel) = True"
| "expiredBeforeAll (Suc n) (SelClosed (Some err) # sel) = True"
| "expiredBeforeAll (Suc n) (SelClosed None # sel) = expiredBeforeAll n sel"

subsection \<open>What a trace of pollLoop did\<close>

fun brpops :: "event list \<Rightarrow> (int \<times> string \<times> string) list" where
  "brpops [] = []"
| "brpops (EvBRPop t k0 k1 # evs) = (t, k0, k1) # brpops evs"
| "brpops (e # evs) = brpops evs"

fun delivered :: "event list \<Rightarrow> (chan \<times> Job) list" where
  "delivered [] = []"
| "delivered (EvSendJob ch job # evs) = (ch, job) # delivered evs"
| "delivered (e # evs) = delivered evs"

text \<open>The warnings of a trace, and the strings they print besides the error.\<close>

fun warnings :: "event list \<Rightarrow> warning list" where
  "warnings [] = []"
| "warnings (EvWarnf w # evs) = w # warnings evs"
| "warnings (e # evs) = warnings evs"

fun printed :: "warning \<Rightarrow> string list" where
  "printed (InvalidKey key) = [key]"
| "printed (InvalidVal val) = [val]"
| "printed (CannotFindJob jobID domain e) = [jobID, domain]"

definition loggedStrings :: "event list \<Rightarrow> string list" where
  "loggedStrings tr = concat (map printed (warnings tr))"

text \<open>The blocking pop an iteration issues.\<close>

abbreviation thePop :: "string \<Rightarrow> iteration \<Rightarrow> event" where
  "thePop key it \<equiv>
     EvBRPop redisBRPopTimeout (fst (pollKeys key (intn3 it))) (snd (pollKeys key (intn3 it)))"

section \<open>Concrete runs\<close>

text \<open>Pools whose \<^verbatim>\<open>Start\<close> succeeds, and a list with one entry of concurrency 0.\<close>

definition startOk :: "Worker \<Rightarrow> chan \<Rightarrow> error option" where
  "startOk w ch = None"

definition confT :: WorkerConfig where
  "confT = \<lparr>WorkerType = ''t'', Concurrency = 2\<rparr>"

definition confU :: WorkerConfig where
  "confU = \<lparr>WorkerType = ''u'', Concurrency = 0\<rparr>"

definition confV :: WorkerConfig where
  "confV = \<lparr>WorkerType = ''v'', Concurrency = 1\<rparr>"

definition brokerTUV :: redisBroker where
  "brokerTUV =
    \<lparr>workers = [NewWorker confT, NewWorker confV],
     workersTypes = [''t'', ''u'', ''v''], running = 1\<rparr>"

definition traceTUV :: "event list" where
  "traceTUV =
    [EvWorkerStart (NewWorker confT) 0 None, EvGo (GoPollLoop ''j/t'' 0),
     EvWorkerStart (NewWorker confV) 1 None, EvGo (GoPollLoop ''j/v'' 1),
     EvInfofStarted 2]"

text \<open>A job store that copies the request and assigns the id 42, and redis answers.\<close>

definition newJobCopy :: "JobRequest \<Rightarrow> Job" where
  "newJobCopy req =
    \<lparr>JobID = [], Domain = ReqDomain req, JobWorkerType = ReqWorkerType req,
     Manual = ReqManual req\<rparr>"

definition createId :: "Job \<Rightarrow> error + Job" where
  "createId j = Inr (j\<lparr>JobID := ''42''\<rparr>)"

definition createFails :: "Job \<Rightarrow> error + Job" where
  "createFails j = Inl (ExtError ''conflict'')"

definition lpushOk :: "string \<Rightarrow> string \<Rightarrow> error option" where
  "lpushOk key val = None"

definition lpushFails :: "string \<Rightarrow> string \<Rightarrow> error option" where
  "lpushFails key val = Some (ExtError ''connection refused'')"

definition reqT :: JobRequest where
  "reqT = \<lparr>ReqWorkerType = ''t'', ReqDomain = ''a.example'', ReqManual = False\<rparr>"

definition reqTmanual :: JobRequest where
  "reqTmanual = \<lparr>ReqWorkerType = ''t'', ReqDomain = ''a.example'', ReqManual = True\<rparr>"

definition reqX :: JobRequest where
  "reqX = \<lparr>ReqWorkerType = ''x'', ReqDomain = ''a.example'', ReqManual = False\<rparr>"

definition jobT :: Job where
  "jobT = \<lparr>JobID = ''42'', Domain = ''a.example'', JobWorkerType = ''t'', Manual = False\<rparr>"

definition jobTmanual :: Job where
  "jobTmanual = \<lparr>JobID = ''42'', Domain = ''a.example'', JobWorkerType = ''t'', Manual = True\<rparr>"

subsection \<open>Concrete shutdowns\<close>

definition shutdownOk :: "nat \<Rightarrow> error option" where
  "shutdownOk i = None"

definition ctxDeadline :: error where
  "ctxDeadline = CtxError ''context deadline exceeded''"

definition shutdownFails :: "nat \<Rightarrow> error option" where
  "shutdownFails i = (if i = 0 then Some ctxDeadline else Some (ExtError ''pool 1''))"

definition brokerTUVdown :: redisBroker where
  "brokerTUVdown = brokerTUV\<lparr>running := 0\<rparr>"

definition traceDrain :: "event list" where
  "traceDrain =
    [EvPrintShuttingDown, EvRecvClosed, EvRecvClosed,
     EvGo (GoShutdown (NewWorker confT)), EvGo (GoShutdown (NewWorker confV)),
     EvRecvErr (Some (ExtError ''pool 1'')), EvRecvErr (Some ctxDeadline),
     EvPrintFailed (MultiError [ExtError ''pool 1'', ctxDeadline]),
     EvClientClose]"

definition traceDeadline :: "event list" where
  "traceDeadline =
    [EvPrintShuttingDown, EvRecvClosed, EvCtxDone, EvPrintFailed ctxDeadline, EvClientClose]"

definition brokerU :: redisBroker where
  "brokerU = \<lparr>workers = [], workersTypes = [''u''], running = 1\<rparr>"

definition traceQuiet :: "event list" where
  "traceQuiet =
    [EvPrintShuttingDown, EvRecvClosed, EvRecvClosed,
     EvGo (GoShutdown (NewWorker confT)), EvGo (GoShutdown (NewWorker confV)),
     EvRecvErr None, EvRecvErr None, EvPrintOk, EvClientClose]"

subsection \<open>Concrete iterations\<close>

text \<open>A store that knows the job 42 of a.example, and answers of the redis client.\<close>

definition storeT :: "string \<Rightarrow> string \<Rightarrow> error + Job" where
  "storeT domain jobID =
     (if domain = ''a.example'' \<and> jobID = ''42'' then Inr jobT else Inl (ExtError ''not_found''))"

definition iterJob :: iteration where
  "iterJob = \<lparr>loadRunning = 1, intn3 = 2,
     brpopResult = ([''j/t'', ''a.example/42''], None), getJob = storeT\<rparr>"

definition iterTimeout :: iteration where
  "iterTimeout = \<lparr>loadRunning = 1, intn3 = 0,
     brpopResult = ([], Some (ExtError ''redis: nil'')), getJob = storeT\<rparr>"

definition iterShortKey :: iteration where
  "iterShortKey = \<lparr>loadRunning = 1, intn3 = 1,
     brpopResult = ([''j'', ''a.example/42''], None), getJob = storeT\<rparr>"

definition iterNoSlash :: iteration where
  "iterNoSlash = \<lparr>loadRunning = 1, intn3 = 1,
     brpopResult = ([''j/t'', ''nodomain''], None), getJob = storeT\<rparr>"

definition iterUnknown :: iteration where
  "iterUnknown = \<lparr>loadRunning = 1, intn3 = 0,
     brpopResult = ([''j/t/p0'', ''a.example/7''], None), getJob = storeT\<rparr>"

definition iterStop :: iteration where
  "iterStop = \<lparr>loadRunning = 0, intn3 = 0,
     brpopResult = ([''j/t'', ''a.example/42''], None), getJob = storeT\<rparr>"

section \<open>Lifecycle flag\<close>

lemma running_NewRedisBroker: "running NewRedisBroker = 0"
  by (simp add: NewRedisBroker_def)

lemma flagOK_New: "flagOK NewRedisBroker"
  by (simp add: flagOK_def NewRedisBroker_def)

lemma startTUV:
  "StartWorkers startOk 0 NewRedisBroker [confT, confU, confV] = (brokerTUV, traceTUV, None)"
  by (simp add: StartWorkers_def NewRedisBroker_def confT_def confU_def confV_def startOk_def
      redisPrefix_def Let_def brokerTUV_def traceTUV_def)

section \<open>StartWorkers: registered names, pools and poll loops\<close>

lemma pollLoopsSpawned_append:
  "pollLoopsSpawned (xs @ ys) = pollLoopsSpawned xs @ pollLoopsSpawned ys"
  by (induction xs rule: pollLoopsSpawned.induct) simp_all

lemma poolsStarted_append:
  "poolsStarted (xs @ ys) = poolsStarted xs @ poolsStarted ys"
  by (induction xs rule: poolsStarted.induct) simp_all

lemma startLoop_running: "startLoop wStart ws b = (b', evs, r) \<Longrightarrow> running b' = running b"
  by (induction ws arbitrary: b b' evs r)
     (auto simp: Let_def split: if_splits option.splits prod.splits)

lemma startLoop_types:
  "startLoop wStart ws b = (b', evs, None) \<Longrightarrow>
     workersTypes b' = workersTypes b @ map WorkerType ws"
  by (induction ws arbitrary: b b' evs)
     (auto simp: Let_def split: if_splits option.splits prod.splits)

lemma startLoop_workers:
  "startLoop wStart ws b = (b', evs, None) \<Longrightarrow>
     workers b' = workers b @ map NewWorker (polled ws)"
  by (induction ws arbitrary: b b' evs)
     (auto simp: Let_def polled_def split: if_splits option.splits prod.splits)

text \<open>
  One step of the loop on an entry with a positive concurrency whose pool starts: the
  two events it adds and the broker the rest of the loop runs on.
\<close>

lemma startLoop_positive:
  assumes "startLoop wStart (conf # ws) b = (b', evs, None)" and "\<not> Concurrency conf \<le> 0"
  obtains evs' where
    "startLoop wStart ws
       (b\<lparr>workersTypes := workersTypes b @ [WorkerType conf],
          workers := workers b @ [NewWorker conf]\<rparr>) = (b', evs', None)"
    "evs = EvWorkerStart (NewWorker conf) (length (workers b)) None
             # EvGo (GoPollLoop (redisPrefix @ WorkerType conf) (length (workers b))) # evs'"
  using assms by (auto simp: Let_def split: option.splits prod.splits)

lemma startLoop_skipped:
  assumes "startLoop wStart (conf # ws) b = (b', evs, r)" and "Concurrency conf \<le> 0"
  shows "startLoop wStart ws (b\<lparr>workersTypes := workersTypes b @ [WorkerType conf]\<rparr>)
           = (b', evs, r)"
  using assms by (simp add: Let_def)

lemma startLoop_spawned:
  "startLoop wStart ws b = (b', evs, None) \<Longrightarrow>
     pollLoopsSpawned evs =
       enumerate (length (workers b))
         (map (\<lambda>conf. redisPrefix @ WorkerType conf) (polled ws))"
proof (induction ws arbitrary: b b' evs)
  case Nil
  then show ?case by (simp add: polled_def)
next
  case (Cons conf ws)
  show ?case
  proof (cases "Concurrency conf \<le> 0")
    case True
    from Cons.IH [OF startLoop_skipped [OF Cons.prems True]] True
    show ?thesis by (simp add: polled_def)
  next
    case False
    from Cons.prems False obtain evs' where
      st: "startLoop wStart ws
             (b\<lparr>workersTypes := workersTypes b @ [WorkerType conf],
                workers := workers b @ [NewWorker conf]\<rparr>) = (b', evs', None)" and
      ev: "evs = EvWorkerStart (NewWorker conf) (length (workers b)) None
                 # EvGo (GoPollLoop (redisPrefix @ WorkerType conf) (length (workers b))) # evs'"
      by (rule startLoop_positive)
    have "polled (conf # ws) = conf # polled ws"
      using False by (simp add: polled_def)
    with Cons.IH [OF st] ev show ?thesis by simp
  qed
qed

lemma startLoop_started:
  "startLoop wStart ws b = (b', evs, None) \<Longrightarrow>
     poolsStarted evs = enumerate (length (workers b)) (map NewWorker (polled ws))"
proof (induction ws arbitrary: b b' evs)
  case Nil
  then show ?case by (simp add: polled_def)
next
  case (Cons conf ws)
  show ?case
  proof (cases "Concurrency conf \<le> 0")
    case True
    from Cons.IH [OF startLoop_skipped [OF Cons.prems True]] True
    show ?thesis by (simp add: polled_def)
  next
    case False
    from Cons.prems False obtain evs' where
      st: "startLoop wStart ws
             (b\<lparr>workersTypes := workersTypes b @ [WorkerType conf],
                workers := workers b @ [NewWorker conf]\<rparr>) = (b', evs', None)" and
      ev: "evs = EvWorkerStart (NewWorker conf) (length (workers b)) None
                 # EvGo (GoPollLoop (redisPrefix @ WorkerType conf) (length (workers b))) # evs'"
      by (rule startLoop_positive)
    have "polled (conf # ws) = conf # polled ws"
      using False by (simp add: polled_def)
    with Cons.IH [OF st] ev show ?thesis by simp
  qed
qed

text \<open>A successful StartWorkers is the loop on the broker with the flag set, then logging.\<close>

lemma StartWorkers_ok:
  assumes "StartWorkers wStart nb b ws = (b', evs, None)"
  obtains evs0 evs1 where
    "running b = 0" "startLoop wStart ws (b\<lparr>running := 1\<rparr>) = (b', evs0, None)"
    "evs = evs0 @ evs1" "pollLoopsSpawned evs1 = []" "poolsStarted evs1 = []"
  using assms
  by (auto simp: StartWorkers_def split: if_splits prod.splits option.splits)

text \<open>
  C9. When StartWorkers succeeds on a list \<open>ws\<close>, the name of every entry of \<open>ws\<close>, in
  order and whatever its concurrency, is appended to the registered names, which is
  what WorkersTypes returns afterwards; the pools appended, the pools started and the
  poll loops spawned (on the key \<open>j/\<close> + name, each with the feed channel of its pool)
  are those of the entries with a concurrency above 0, and no others.
\<close>

theorem StartWorkers_registers_all_polls_positive:
  assumes "StartWorkers wStart nb b ws = (b', evs, None)"
  shows "WorkersTypes b' = WorkersTypes b @ map WorkerType ws
       \<and> workers b' = workers b @ map NewWorker (polled ws)
       \<and> poolsStarted evs = enumerate (length (workers b)) (map NewWorker (polled ws))
       \<and> pollLoopsSpawned evs =
           enumerate (length (workers b))
             (map (\<lambda>conf. redisPrefix @ WorkerType conf) (polled ws))"
proof -
  from assms obtain evs0 evs1 where
    st: "startLoop wStart ws (b\<lparr>running := 1\<rparr>) = (b', evs0, None)" and
    ev: "evs = evs0 @ evs1" "pollLoopsSpawned evs1 = []" "poolsStarted evs1 = []"
    by (rule StartWorkers_ok)
  show ?thesis
    using startLoop_types [OF st] startLoop_workers [OF st]
      startLoop_started [OF st] startLoop_spawned [OF st] ev
    by (simp add: WorkersTypes_def pollLoopsSpawned_append poolsStarted_append)
qed

theorem StartWorkers_registers_all_polls_positive_witness:
  "StartWorkers startOk 0 NewRedisBroker [confT, confU, confV] = (brokerTUV, traceTUV, None)
   \<and> WorkersTypes brokerTUV = [''t'', ''u'', ''v'']
   \<and> workers brokerTUV = [NewWorker confT, NewWorker confV]
   \<and> poolsStarted traceTUV = [(0, NewWorker confT), (1, NewWorker confV)]
   \<and> pollLoopsSpawned traceTUV = [(0, ''j/t''), (1, ''j/v'')]"
  using StartWorkers_registers_all_polls_positive [OF startTUV] startTUV
  by (simp add: WorkersTypes_def NewRedisBroker_def polled_def confT_def confU_def confV_def
      redisPrefix_def)

section \<open>PushJob\<close>

text \<open>
  C4, as the claim states it, asks for ErrUnknownWorker whenever the worker type is not
  registered. The flag is tested first: on a broker that was never started nothing is
  registered, and a request is answered with ErrClosed.
\<close>

theorem PushJob_unknown_type_when_closed:
  "ReqWorkerType reqX \<notin> set (WorkersTypes NewRedisBroker)
   \<and> PushJob newJobCopy createId lpushOk NewRedisBroker reqX = ([], Inl ErrClosed)
   \<and> snd (PushJob newJobCopy createId lpushOk NewRedisBroker reqX) \<noteq> Inl ErrUnknownWorker"
  by (simp add: PushJob_def NewRedisBroker_def WorkersTypes_def)

text \<open>
  C4, amended. On a broker whose flag is 0 or 1: when the broker is not Running, PushJob
  returns ErrClosed, whatever the worker type; when it is Running and the worker type of
  the request is not among the registered names, PushJob returns ErrUnknownWorker. In
  both cases the trace is empty: Create is not called, nothing is pushed on a queue.
\<close>

theorem PushJob_rejects:
  assumes "flagOK b"
  shows "(running b \<noteq> 1 \<longrightarrow> PushJob newJob create lpush b req = ([], Inl ErrClosed))
       \<and> (running b = 1 \<and> ReqWorkerType req \<notin> set (WorkersTypes b)
            \<longrightarrow> PushJob newJob create lpush b req = ([], Inl ErrUnknownWorker))
       \<and> (running b \<noteq> 1 \<or> ReqWorkerType req \<notin> set (WorkersTypes b)
            \<longrightarrow> createAttempts (fst (PushJob newJob create lpush b req)) = []
              \<and> persisted (fst (PushJob newJob create lpush b req)) = []
              \<and> pushAttempts (fst (PushJob newJob create lpush b req)) = []
              \<and> enqueued (fst (PushJob newJob create lpush b req)) = [])"
  using assms by (auto simp: flagOK_def PushJob_def IsInArray_def WorkersTypes_def)

theorem PushJob_rejects_witness:
  "flagOK NewRedisBroker \<and> running NewRedisBroker \<noteq> 1
   \<and> PushJob newJobCopy createId lpushOk NewRedisBroker reqT = ([], Inl ErrClosed)
   \<and> flagOK brokerTUV \<and> running brokerTUV = 1
   \<and> ReqWorkerType reqX \<notin> set (WorkersTypes brokerTUV)
   \<and> PushJob newJobCopy createId lpushOk brokerTUV reqX = ([], Inl ErrUnknownWorker)
   \<and> createAttempts (fst (PushJob newJobCopy createId lpushOk brokerTUV reqX)) = []
   \<and> pushAttempts (fst (PushJob newJobCopy createId lpushOk brokerTUV reqX)) = []"
proof -
  have a: "flagOK NewRedisBroker" by (rule flagOK_New)
  have b: "flagOK brokerTUV" by (simp add: flagOK_def brokerTUV_def)
  have c: "running NewRedisBroker \<noteq> 1" by (simp add: NewRedisBroker_def)
  have d: "running brokerTUV = 1 \<and> ReqWorkerType reqX \<notin> set (WorkersTypes brokerTUV)"
    by (simp add: brokerTUV_def WorkersTypes_def reqX_def)
  show ?thesis
    using PushJob_rejects [OF a, where newJob = newJobCopy and create = createId
          and lpush = lpushOk and req = reqT]
      PushJob_rejects [OF b, where newJob = newJobCopy and create = createId
          and lpush = lpushOk and req = reqX] a b c d
    by simp
qed

text \<open>
  C5. A request is accepted when the broker is Running and its worker type is
  registered. PushJob then calls Create on the new job first. When Create fails, its
  error is returned and nothing is pushed. Otherwise one left-push follows, of the
  payload \<open>domain/job_id\<close> on the key \<open>j/\<close> + worker type, with \<open>/p0\<close> appended when
  the job is manual (the fields are those of the job as Create left it); the error of
  the push is returned when it fails, the persisted job when it succeeds.
\<close>

theorem PushJob_accepted:
  assumes "running b = 1" and "ReqWorkerType req \<in> set (WorkersTypes b)"
  shows "PushJob newJob create lpush b req =
    (case create (newJob req) of
       Inl err \<Rightarrow> ([EvCreate (newJob req) (Inl err)], Inl err)
     | Inr job \<Rightarrow>
         ([EvCreate (newJob req) (Inr job),
           EvLPush (''j/'' @ JobWorkerType job @ (if Manual job then ''/p0'' else ''''))
                   (Domain job @ ''/'' @ JobID job)
                   (lpush (''j/'' @ JobWorkerType job @ (if Manual job then ''/p0'' else ''''))
                          (Domain job @ ''/'' @ JobID job))],
          case lpush (''j/'' @ JobWorkerType job @ (if Manual job then ''/p0'' else ''''))
                     (Domain job @ ''/'' @ JobID job) of
            Some err \<Rightarrow> Inl err
          | None \<Rightarrow> Inr job))"
  using assms
  by (auto simp: PushJob_def IsInArray_def WorkersTypes_def Let_def redisPrefix_def
      redisHighPrioritySuffix_def split: sum.splits option.splits)

theorem PushJob_accepted_witness:
  "running brokerTUV = 1 \<and> ReqWorkerType reqT \<in> set (WorkersTypes brokerTUV)
   \<and> ReqWorkerType reqTmanual \<in> set (WorkersTypes brokerTUV)
   \<and> PushJob newJobCopy createId lpushOk brokerTUV reqT =
       ([EvCreate (newJobCopy reqT) (Inr jobT), EvLPush ''j/t'' ''a.example/42'' None], Inr jobT)
   \<and> PushJob newJobCopy createId lpushOk brokerTUV reqTmanual =
       ([EvCreate (newJobCopy reqTmanual) (Inr jobTmanual),
         EvLPush ''j/t/p0'' ''a.example/42'' None], Inr jobTmanual)
   \<and> PushJob newJobCopy createFails lpushOk brokerTUV reqT =
       ([EvCreate (newJobCopy reqT) (Inl (ExtError ''conflict''))], Inl (ExtError ''conflict''))"
proof -
  have r: "running brokerTUV = 1" by (simp add: brokerTUV_def)
  have t: "ReqWorkerType reqT \<in> set (WorkersTypes brokerTUV)"
    by (simp add: brokerTUV_def WorkersTypes_def reqT_def)
  have m: "ReqWorkerType reqTmanual \<in> set (WorkersTypes brokerTUV)"
    by (simp add: brokerTUV_def WorkersTypes_def reqTmanual_def)
  show ?thesis
    using PushJob_accepted [OF r t, where newJob = newJobCopy and create = createId
          and lpush = lpushOk]
      PushJob_accepted [OF r m, where newJob = newJobCopy and create = createId
          and lpush = lpushOk]
      PushJob_accepted [OF r t, where newJob = newJobCopy and create = createFails
          and lpush = lpushOk] r t m
    by (simp add: newJobCopy_def createId_def createFails_def lpushOk_def reqT_def
        reqTmanual_def jobT_def jobTmanual_def)
qed

text \<open>
  C10. For an accepted request whose Create succeeds and whose left-push fails, PushJob
  returns the error of the push. Its trace is the Create and the failed push, nothing
  after them: the job is persisted and stays so (no call undoes the Create), and no
  payload was put on a queue.
\<close>

theorem PushJob_push_failure_keeps_job:
  assumes "running b = 1" and "ReqWorkerType req \<in> set (WorkersTypes b)"
    and "create (newJob req) = Inr job"
    and "lpush (''j/'' @ JobWorkerType job @ (if Manual job then ''/p0'' else ''''))
               (Domain job @ ''/'' @ JobID job) = Some err"
  shows "snd (PushJob newJob create lpush b req) = Inl err
       \<and> fst (PushJob newJob create lpush b req) =
           [EvCreate (newJob req) (Inr job),
            EvLPush (''j/'' @ JobWorkerType job @ (if Manual job then ''/p0'' else ''''))
                    (Domain job @ ''/'' @ JobID job) (Some err)]
       \<and> persisted (fst (PushJob newJob create lpush b req)) = [job]
       \<and> enqueued (fst (PushJob newJob create lpush b req)) = []"
proof (cases "Manual job")
  case True
  with assms show ?thesis
    by (simp add: PushJob_def IsInArray_def WorkersTypes_def Let_def redisPrefix_def
        redisHighPrioritySuffix_def)
next
  case False
  with assms show ?thesis
    by (simp add: PushJob_def IsInArray_def WorkersTypes_def Let_def redisPrefix_def
        redisHighPrioritySuffix_def)
qed

theorem PushJob_push_failure_keeps_job_witness:
  "running brokerTUV = 1 \<and> ReqWorkerType reqTmanual \<in> set (WorkersTypes brokerTUV)
   \<and> createId (newJobCopy reqTmanual) = Inr jobTmanual
   \<and> lpushFails ''j/t/p0'' ''a.example/42'' = Some (ExtError ''connection refused'')
   \<and> snd (PushJob newJobCopy createId lpushFails brokerTUV reqTmanual)
       = Inl (ExtError ''connection refused'')
   \<and> persisted (fst (PushJob newJobCopy createId lpushFails brokerTUV reqTmanual))
       = [jobTmanual]
   \<and> enqueued (fst (PushJob newJobCopy createId lpushFails brokerTUV reqTmanual)) = []"
proof -
  have r: "running brokerTUV = 1" by (simp add: brokerTUV_def)
  have m: "ReqWorkerType reqTmanual \<in> set (WorkersTypes brokerTUV)"
    by (simp add: brokerTUV_def WorkersTypes_def reqTmanual_def)
  have c: "createId (newJobCopy reqTmanual) = Inr jobTmanual"
    by (simp add: createId_def newJobCopy_def reqTmanual_def jobTmanual_def)
  have l: "lpushFails
      (''j/'' @ JobWorkerType jobTmanual @ (if Manual jobTmanual then ''/p0'' else ''''))
      (Domain jobTmanual @ ''/'' @ JobID jobTmanual) = Some (ExtError ''connection refused'')"
    by (simp add: lpushFails_def)
  show ?thesis
    using PushJob_push_failure_keeps_job
      [where newJob = newJobCopy and create = createId and lpush = lpushFails, OF r m c l]
      r m c
    by (simp add: lpushFails_def)
qed

section \<open>ShutdownWorkers\<close>

lemma waitClosed_None:
  "waitClosed n sel = (evs, Returns None) \<Longrightarrow>
     evs = replicate n EvRecvClosed \<and> n \<le> length sel \<and> list_all tookToken (take n sel)"
  by (induction n sel arbitrary: evs rule: waitClosed.induct)
     (auto split: prod.splits)

lemma waitClosed_Some:
  "waitClosed n sel = (evs, Returns (Some err)) \<Longrightarrow>
     \<exists>k<n. evs = replicate k EvRecvClosed @ [EvCtxDone, EvPrintFailed err]
          \<and> k < length sel \<and> list_all tookToken (take k sel) \<and> sel ! k = SelDone err"
proof (induction n sel arbitrary: evs rule: waitClosed.induct)
  case (4 n x sel)
  then obtain evs' where w: "waitClosed n sel = (evs', Returns (Some err))"
    and e: "evs = EvRecvClosed # evs'"
    by (auto split: prod.splits)
  from "4.IH" [OF w] obtain k where "k < n"
    "evs' = replicate k EvRecvClosed @ [EvCtxDone, EvPrintFailed err]"
    "k < length sel" "list_all tookToken (take k sel)" "sel ! k = SelDone err"
    by blast
  with e show ?case by (intro exI [of _ "Suc k"]) simp
qed auto

lemma waitClosed_Blocks:
  "waitClosed n sel = (evs, Blocks) \<Longrightarrow>
     \<exists>k<n. evs = replicate k EvRecvClosed \<and> length sel = k \<and> list_all tookToken sel"
proof (induction n sel arbitrary: evs rule: waitClosed.induct)
  case (4 n x sel)
  then obtain evs' where w: "waitClosed n sel = (evs', Blocks)" and e: "evs = EvRecvClosed # evs'"
    by (auto split: prod.splits)
  from "4.IH" [OF w] obtain k where "k < n" "evs' = replicate k EvRecvClosed"
    "length sel = k" "list_all tookToken sel"
    by blast
  with e show ?case by (intro exI [of _ "Suc k"]) simp
qed auto

text \<open>The case of the context is taken only at a select where the context has expired.\<close>

lemma waitClosed_expired:
  "waitClosed n sel = (evs, Returns (Some err)) \<Longrightarrow> expiredBeforeAll n sel"
proof (induction n sel arbitrary: evs rule: waitClosed.induct)
  case (4 n x sel)
  then obtain evs' where w: "waitClosed n sel = (evs', Returns (Some err))"
    by (auto split: prod.splits)
  from "4.IH" [OF w] show ?case by (cases x) simp_all
qed auto

text \<open>The three ways a call on a Running broker with pools can go, with their traces.\<close>

lemma ShutdownWorkers_shape:
  assumes "running b = 1" and "workers b \<noteq> []"
    and "ShutdownWorkers sel wShutdown arrival b = (b', tr, res)"
  shows "(\<exists>k<length (workers b). length sel = k \<and> list_all tookToken sel
            \<and> tr = EvPrintShuttingDown # replicate k EvRecvClosed \<and> res = Blocks)
       \<or> (\<exists>k<length (workers b). \<exists>err.
            k < length sel \<and> list_all tookToken (take k sel) \<and> sel ! k = SelDone err
            \<and> expiredBeforeAll (length (workers b)) sel
            \<and> tr = EvPrintShuttingDown # replicate k EvRecvClosed
                     @ [EvCtxDone, EvPrintFailed err, EvClientClose]
            \<and> res = Returns (Some err))
       \<or> (length (workers b) \<le> length sel
            \<and> list_all tookToken (take (length (workers b)) sel)
            \<and> tr = EvPrintShuttingDown # replicate (length (workers b)) EvRecvClosed
                     @ map (\<lambda>w. EvGo (GoShutdown w)) (workers b)
                     @ map EvRecvErr
                         (recvErrs (length (workers b)) arrival
                            (map wShutdown [0..<length (workers b)]))
                     @ [case collectErrs None
                               (recvErrs (length (workers b)) arrival
                                  (map wShutdown [0..<length (workers b)])) of
                          Some e \<Rightarrow> EvPrintFailed e | None \<Rightarrow> EvPrintOk,
                        EvClientClose]
            \<and> res = Returns (collectErrs None
                         (recvErrs (length (workers b)) arrival
                            (map wShutdown [0..<length (workers b)]))))"
proof -
  obtain evs r where w: "waitClosed (length (workers b)) sel = (evs, r)"
    by (cases "waitClosed (length (workers b)) sel")
  show ?thesis
  proof (cases r)
    case Blocks
    with w waitClosed_Blocks [of "length (workers b)" sel evs] assms show ?thesis
      by (auto simp: ShutdownWorkers_def Let_def)
  next
    case (Returns eo)
    show ?thesis
    proof (cases eo)
      case None
      with Returns w waitClosed_None [of "length (workers b)" sel evs] assms show ?thesis
        by (auto simp: ShutdownWorkers_def Let_def)
    next
      case (Some err)
      with Returns w waitClosed_Some [of "length (workers b)" sel evs err]
        waitClosed_expired [of "length (workers b)" sel evs err] assms show ?thesis
        by (auto simp: ShutdownWorkers_def Let_def)
    qed
  qed
qed

lemma shutdownsInvoked_append:
  "shutdownsInvoked (xs @ ys) = shutdownsInvoked xs @ shutdownsInvoked ys"
  by (induction xs rule: shutdownsInvoked.induct) simp_all

lemma shutdownsInvoked_tokens: "shutdownsInvoked (replicate k EvRecvClosed) = []"
  by (induction k) simp_all

lemma shutdownsInvoked_spawn: "shutdownsInvoked (map (\<lambda>w. EvGo (GoShutdown w)) ws) = ws"
  by (induction ws) simp_all

lemma shutdownsInvoked_answers: "shutdownsInvoked (map EvRecvErr rs) = []"
  by (induction rs) simp_all

lemma count_tokens: "count_list (replicate k EvRecvClosed) EvRecvClosed = k"
  by (induction k) simp_all

lemma count_spawn: "count_list (map (\<lambda>w. EvGo (GoShutdown w)) ws) EvRecvClosed = 0"
  by (induction ws) simp_all

lemma count_answers: "count_list (map EvRecvErr rs) EvRecvClosed = 0"
  by (induction rs) simp_all

lemma takeWhile_tokens:
  "takeWhile (\<lambda>e. \<not> isShutdown e) (replicate k EvRecvClosed @ xs)
     = replicate k EvRecvClosed @ takeWhile (\<lambda>e. \<not> isShutdown e) xs"
  by (induction k) simp_all

lemma takeWhile_spawn:
  "ws \<noteq> [] \<Longrightarrow> takeWhile (\<lambda>e. \<not> isShutdown e) (map (\<lambda>w. EvGo (GoShutdown w)) ws @ xs) = []"
  by (cases ws) simp_all

lemma mset_remove_nth:
  "j < length xs \<Longrightarrow> add_mset (xs ! j) (mset (remove_nth j xs)) = mset xs"
proof -
  assume j: "j < length xs"
  then have "xs = take j xs @ xs ! j # drop (Suc j) xs"
    by (rule id_take_nth_drop)
  then have "mset xs = mset (take j xs @ xs ! j # drop (Suc j) xs)" by simp
  then show ?thesis by (simp add: remove_nth_def)
qed

lemma length_remove_nth: "j < length xs \<Longrightarrow> length (remove_nth j xs) = length xs - 1"
  by (auto simp: remove_nth_def min_def)

lemma recvErrs_mset:
  "length pending = n \<Longrightarrow> mset (recvErrs n arrival pending) = mset pending"
proof (induction n arrival pending rule: recvErrs.induct)
  case (4 n k ks p ps)
  let ?j = "k mod length (p # ps)"
  have j: "?j < length (p # ps)" by simp
  have "length (remove_nth ?j (p # ps)) = n"
    using length_remove_nth [OF j] "4.prems" by simp
  from "4.IH" [OF refl this]
  have ih: "mset (recvErrs n ks (remove_nth ?j (p # ps))) = mset (remove_nth ?j (p # ps))" .
  have "mset (recvErrs (Suc n) (k # ks) (p # ps))
          = add_mset ((p # ps) ! ?j) (mset (recvErrs n ks (remove_nth ?j (p # ps))))"
    by (simp add: Let_def)
  also have "\<dots> = add_mset ((p # ps) ! ?j) (mset (remove_nth ?j (p # ps)))"
    by (simp only: ih)
  also have "\<dots> = mset (p # ps)"
    by (rule mset_remove_nth [OF j])
  finally show ?case .
qed simp_all

text \<open>
  What the loop over the answers returns, written without the functions of the model:
  nil when every answer is nil, else one multi-error whose members are the non-nil
  answers in the order received, a multi-error among them replaced by its members.
\<close>

lemma nonNil_eq: "nonNil rs = [e. Some e \<leftarrow> rs]"
  by (induction rs rule: nonNil.induct) simp_all

lemma members_eq: "members e = (case e of MultiError es \<Rightarrow> es | _ \<Rightarrow> [e])"
  by (cases e) simp_all

lemma collectErrs_multi:
  "collectErrs (Some (MultiError es0)) rs
     = Some (MultiError (es0 @ concat (map members (nonNil rs))))"
  by (induction rs arbitrary: es0 rule: nonNil.induct) simp_all

lemma collectErrs_nonNil:
  "collectErrs None rs
     = (if nonNil rs = [] then None else Some (MultiError (concat (map members (nonNil rs)))))"
  by (induction rs rule: nonNil.induct) (simp_all add: collectErrs_multi)

lemma collectErrs_explicit:
  "collectErrs None rs
     = (if [e. Some e \<leftarrow> rs] = [] then None
        else Some (MultiError
               (concat (map (\<lambda>e. case e of MultiError es \<Rightarrow> es | _ \<Rightarrow> [e])
                          [e. Some e \<leftarrow> rs]))))"
proof -
  have m: "members = (\<lambda>e. case e of MultiError es \<Rightarrow> es | _ \<Rightarrow> [e])"
    by (rule ext) (rule members_eq)
  show ?thesis
    unfolding collectErrs_nonNil nonNil_eq m by (rule refl)
qed

lemma collectErrs_holds:
  assumes "Some e \<in> set rs" and "\<forall>es. e \<noteq> MultiError es"
  shows "\<exists>es. collectErrs None rs = Some (MultiError es) \<and> e \<in> set es"
proof -
  have "e \<in> set (nonNil rs)" using assms(1)
    by (induction rs rule: nonNil.induct) auto
  moreover have "members e = [e]" using assms(2) by (cases e) simp_all
  ultimately have "e \<in> set (concat (map members (nonNil rs)))" and "nonNil rs \<noteq> []"
    by force+
  then show ?thesis by (simp add: collectErrs_nonNil)
qed

lemma collectErrs_all_nil: "\<forall>r\<in>set rs. r = None \<Longrightarrow> collectErrs None rs = None"
  by (induction rs) simp_all

lemma tookToken_nth:
  "list_all tookToken (take k sel) \<Longrightarrow> i < k \<Longrightarrow> i < length sel \<Longrightarrow> tookToken (sel ! i)"
  by (simp add: list_all_length)

lemma first_done_unique:
  assumes "k < length sel" "list_all tookToken (take k sel)" "sel ! k = SelDone err"
    and "j < length sel" "list_all tookToken (take j sel)" "sel ! j = SelDone e"
  shows "k = j \<and> err = e"
proof -
  have "\<not> k < j" using tookToken_nth [OF assms(5) _ assms(1)] assms(3) by auto
  moreover have "\<not> j < k" using tookToken_nth [OF assms(2) _ assms(4)] assms(6) by auto
  ultimately have "k = j" by simp
  with assms(3,6) show ?thesis by simp
qed

text \<open>
  C3, as the claim states it, makes the expiry of the context before the last token
  enough for the context error. The select at lines 91-96 takes either case when both
  are ready: below the context has expired when the second token is taken, the call
  goes on, shuts both pools down and returns nil.
\<close>

theorem ShutdownWorkers_expired_context_not_taken:
  "expiredBeforeAll (length (workers brokerTUV)) [SelClosed None, SelClosed (Some ctxDeadline)]
   \<and> ShutdownWorkers [SelClosed None, SelClosed (Some ctxDeadline)] shutdownOk [] brokerTUV
       = (brokerTUVdown, traceQuiet, Returns None)
   \<and> snd (snd (ShutdownWorkers [SelClosed None, SelClosed (Some ctxDeadline)] shutdownOk []
                 brokerTUV)) \<noteq> Returns (Some ctxDeadline)
   \<and> shutdownsInvoked traceQuiet = [NewWorker confT, NewWorker confV]"
  by (simp add: ShutdownWorkers_def brokerTUV_def brokerTUVdown_def traceQuiet_def Let_def
      shutdownOk_def upt_rec)

text \<open>
  C3, amended. ShutdownWorkers on a Running broker with at least one pool, \<open>n\<close> pools in
  all.
  \<^item> When a pool's Shutdown is spawned at all, exactly \<open>n\<close> tokens were taken from
    \<open>closed\<close> before the first spawn, and \<open>n\<close> in the whole call.
  \<^item> When a select takes the case of the context, which it does only when the context
    has expired before all tokens were taken, the call returns the context error, it
    took fewer than \<open>n\<close> tokens and no pool's Shutdown is spawned. That is the outcome
    of every schedule whose first select not to take a token comes after \<open>k < n\<close>
    tokens.
  \<^item> While the call blocks in a select it has taken fewer than \<open>n\<close> tokens and no
    pool's Shutdown is spawned.
  \<^item> When the first \<open>n\<close> selects all take a token, the context case is never taken
    and the call returns. Then the Shutdown of every pool is spawned, in the order of
    the pools, and the answers received are those of the pools in some order. The value
    returned is nil when every pool answers nil; else it is one multi-error whose
    members are the non-nil answers in the order received (the members of an answer
    that is itself a multi-error in its place), so that every non-nil error of a pool is
    in it.
\<close>

theorem ShutdownWorkers_two_phases:
  assumes "running b = 1" and "workers b \<noteq> []"
    and "ShutdownWorkers sel wShutdown arrival b = (b', tr, res)"
  shows "(shutdownsInvoked tr \<noteq> [] \<longrightarrow>
            tokensBeforeShutdown tr = length (workers b)
            \<and> tokensReceived tr = length (workers b))
       \<and> (EvCtxDone \<in> set tr \<longrightarrow>
            expiredBeforeAll (length (workers b)) sel
            \<and> (\<exists>err. res = Returns (Some err) \<and> SelDone err \<in> set sel)
            \<and> tokensReceived tr < length (workers b) \<and> shutdownsInvoked tr = [])
       \<and> (\<forall>k err. k < length (workers b) \<and> k < length sel
               \<and> list_all tookToken (take k sel) \<and> sel ! k = SelDone err
            \<longrightarrow> EvCtxDone \<in> set tr \<and> res = Returns (Some err) \<and> tokensReceived tr = k)
       \<and> (length (workers b) \<le> length sel \<and> list_all tookToken (take (length (workers b)) sel)
            \<longrightarrow> EvCtxDone \<notin> set tr \<and> res \<noteq> Blocks)
       \<and> (res = Blocks \<longrightarrow>
            tokensReceived tr < length (workers b) \<and> shutdownsInvoked tr = [])
       \<and> (EvCtxDone \<notin> set tr \<and> res \<noteq> Blocks \<longrightarrow>
            shutdownsInvoked tr = workers b
            \<and> mset (recvErrs (length (workers b)) arrival (map wShutdown [0..<length (workers b)]))
                = mset (map wShutdown [0..<length (workers b)])
            \<and> res = Returns
                 (if [e. Some e \<leftarrow> recvErrs (length (workers b)) arrival
                                      (map wShutdown [0..<length (workers b)])] = []
                  then None
                  else Some (MultiError
                         (concat (map (\<lambda>e. case e of MultiError es \<Rightarrow> es | _ \<Rightarrow> [e])
                            [e. Some e \<leftarrow> recvErrs (length (workers b)) arrival
                                            (map wShutdown [0..<length (workers b)])]))))
            \<and> (\<forall>i e. i < length (workers b) \<and> wShutdown i = Some e
                   \<and> (\<forall>es. e \<noteq> MultiError es)
                 \<longrightarrow> (\<exists>es. res = Returns (Some (MultiError es)) \<and> e \<in> set es))
            \<and> ((\<forall>i<length (workers b). wShutdown i = None) \<longrightarrow> res = Returns None))"
proof -
  let ?n = "length (workers b)"
  let ?rs = "recvErrs ?n arrival (map wShutdown [0..<?n])"
  have perm: "mset ?rs = mset (map wShutdown [0..<?n])"
    by (rule recvErrs_mset) simp
  then have same: "set ?rs = set (map wShutdown [0..<?n])"
    by (rule mset_eq_setD)
  have holds: "\<exists>es. collectErrs None ?rs = Some (MultiError es) \<and> e \<in> set es"
    if "i < ?n" "wShutdown i = Some e" "\<forall>es. e \<noteq> MultiError es" for i e
  proof -
    have "wShutdown i \<in> set (map wShutdown [0..<?n])" using that(1) by simp
    with same that(2) have "Some e \<in> set ?rs" by simp
    then show ?thesis using that(3) by (rule collectErrs_holds)
  qed
  have nils: "collectErrs None ?rs = None" if "\<forall>i<?n. wShutdown i = None"
  proof (rule collectErrs_all_nil)
    show "\<forall>r\<in>set ?rs. r = None" using same that by auto
  qed
  from ShutdownWorkers_shape [OF assms]
  consider
    (blocks) k where "k < ?n" "length sel = k" "list_all tookToken sel"
      "tr = EvPrintShuttingDown # replicate k EvRecvClosed" "res = Blocks"
  | (ctx) k err where "k < ?n" "k < length sel" "list_all tookToken (take k sel)"
      "sel ! k = SelDone err" "expiredBeforeAll ?n sel"
      "tr = EvPrintShuttingDown # replicate k EvRecvClosed
              @ [EvCtxDone, EvPrintFailed err, EvClientClose]"
      "res = Returns (Some err)"
  | (drain) "?n \<le> length sel" "list_all tookToken (take ?n sel)"
      "tr = EvPrintShuttingDown # replicate ?n EvRecvClosed
              @ map (\<lambda>w. EvGo (GoShutdown w)) (workers b)
              @ map EvRecvErr ?rs
              @ [case collectErrs None ?rs of Some e \<Rightarrow> EvPrintFailed e | None \<Rightarrow> EvPrintOk,
                 EvClientClose]"
      "res = Returns (collectErrs None ?rs)"
    by blast
  then show ?thesis
  proof cases
    case blocks
    have a: "\<not> ?n \<le> length sel" using blocks by simp
    have b: "sel ! j \<noteq> SelDone e" if "j < length sel" for j e
    proof -
      have "tookToken (sel ! j)" using blocks(3) that by (simp add: list_all_length)
      then show ?thesis by auto
    qed
    from blocks a b show ?thesis
      by (simp add: shutdownsInvoked_tokens tokensReceived_def count_tokens)
  next
    case ctx
    have m: "SelDone err \<in> set sel" using ctx(2,4) by (metis nth_mem)
    have a: "\<not> (?n \<le> length sel \<and> list_all tookToken (take ?n sel))"
    proof
      assume h: "?n \<le> length sel \<and> list_all tookToken (take ?n sel)"
      from tookToken_nth [OF conjunct2 [OF h] ctx(1) ctx(2)] ctx(4) show False by simp
    qed
    have u: "j = k \<and> e = err"
      if "j < length sel" "list_all tookToken (take j sel)" "sel ! j = SelDone e" for j e
      using first_done_unique [OF that ctx(2,3,4)] .
    have tk: "tokensReceived tr = k"
      using ctx by (simp add: tokensReceived_def count_tokens)
    have si: "shutdownsInvoked tr = []"
      using ctx by (simp add: shutdownsInvoked_tokens shutdownsInvoked_append)
    have cd: "EvCtxDone \<in> set tr" using ctx by simp
    from ctx(1,5,7) a m u tk si cd show ?thesis
      by auto
  next
    case drain
    have tb: "tokensBeforeShutdown tr = ?n"
      using drain assms(2)
      by (simp add: tokensBeforeShutdown_def takeWhile_tokens takeWhile_spawn count_tokens)
    have tk: "tokensReceived tr = ?n"
      using drain
      by (simp add: tokensReceived_def count_tokens count_spawn count_answers
          split: option.splits)
    have si: "shutdownsInvoked tr = workers b"
      using drain
      by (simp add: shutdownsInvoked_append shutdownsInvoked_tokens shutdownsInvoked_spawn
          shutdownsInvoked_answers split: option.splits)
    have nd: "EvCtxDone \<notin> set tr"
      using drain by (auto split: option.splits)
    have b: "sel ! j \<noteq> SelDone e" if "j < ?n" for j e
    proof -
      have "j < length sel" using drain(1) that by simp
      from tookToken_nth [OF drain(2) that this] show ?thesis by auto
    qed
    have ex: "res = Returns
                 (if [e. Some e \<leftarrow> ?rs] = [] then None
                  else Some (MultiError
                         (concat (map (\<lambda>e. case e of MultiError es \<Rightarrow> es | _ \<Rightarrow> [e])
                            [e. Some e \<leftarrow> ?rs]))))"
      using drain(4) by (simp only: collectErrs_explicit)
    have nb: "res \<noteq> Blocks" using drain(4) by simp
    have h: "\<forall>i e. i < ?n \<and> wShutdown i = Some e \<and> (\<forall>es. e \<noteq> MultiError es)
                 \<longrightarrow> (\<exists>es. res = Returns (Some (MultiError es)) \<and> e \<in> set es)"
      using holds drain(4) by auto
    have z: "(\<forall>i<?n. wShutdown i = None) \<longrightarrow> res = Returns None"
      using nils drain(4) by simp
    show ?thesis
      apply (intro conjI)
      subgoal using tb tk by simp
      subgoal using nd by simp
      subgoal using b by auto
      subgoal using nd nb by simp
      subgoal using nb by simp
      subgoal by (rule impI, intro conjI) (rule si, rule perm, rule ex, rule h, rule z)
      done
  qed
qed

lemma shutdownDrain:
  "ShutdownWorkers [SelClosed None, SelClosed None] shutdownFails [1] brokerTUV
     = (brokerTUVdown, traceDrain,
        Returns (Some (MultiError [ExtError ''pool 1'', ctxDeadline])))"
  by (simp add: ShutdownWorkers_def brokerTUV_def brokerTUVdown_def traceDrain_def Let_def
      shutdownFails_def remove_nth_def upt_rec ctxDeadline_def)

lemma shutdownDeadline:
  "ShutdownWorkers [SelClosed None, SelDone ctxDeadline] shutdownFails [] brokerTUV
     = (brokerTUVdown, traceDeadline, Returns (Some ctxDeadline))"
  by (simp add: ShutdownWorkers_def brokerTUV_def brokerTUVdown_def traceDeadline_def Let_def)

theorem ShutdownWorkers_two_phases_witness:
  "running brokerTUV = 1 \<and> workers brokerTUV \<noteq> []
   \<and> ShutdownWorkers [SelClosed None, SelClosed None] shutdownFails [1] brokerTUV
       = (brokerTUVdown, traceDrain,
          Returns (Some (MultiError [ExtError ''pool 1'', ctxDeadline])))
   \<and> tokensBeforeShutdown traceDrain = 2
   \<and> shutdownsInvoked traceDrain = [NewWorker confT, NewWorker confV]
   \<and> EvCtxDone \<notin> set traceDrain
   \<and> shutdownFails 0 = Some ctxDeadline
   \<and> ctxDeadline \<in> set [ExtError ''pool 1'', ctxDeadline]
   \<and> ShutdownWorkers [SelClosed None, SelDone ctxDeadline] shutdownFails [] brokerTUV
       = (brokerTUVdown, traceDeadline, Returns (Some ctxDeadline))
   \<and> EvCtxDone \<in> set traceDeadline
   \<and> expiredBeforeAll 2 [SelClosed None, SelDone ctxDeadline]
   \<and> tokensReceived traceDeadline = 1
   \<and> shutdownsInvoked traceDeadline = []"
proof -
  have r: "running brokerTUV = 1" by (simp add: brokerTUV_def)
  have w: "workers brokerTUV \<noteq> []" by (simp add: brokerTUV_def)
  have n: "length (workers brokerTUV) = 2" by (simp add: brokerTUV_def)
  have d: "EvCtxDone \<notin> set traceDrain" by (simp add: traceDrain_def)
  have c: "EvCtxDone \<in> set traceDeadline" by (simp add: traceDeadline_def)
  have s: "shutdownsInvoked traceDrain \<noteq> []" by (simp add: traceDrain_def)
  have f: "shutdownFails 0 = Some ctxDeadline" by (simp add: shutdownFails_def)
  from ShutdownWorkers_two_phases [OF r w shutdownDrain] s d n
  have 1: "tokensBeforeShutdown traceDrain = 2
      \<and> shutdownsInvoked traceDrain = [NewWorker confT, NewWorker confV]"
    by (simp add: brokerTUV_def)
  from ShutdownWorkers_two_phases [OF r w shutdownDeadline] c n
  have 2: "expiredBeforeAll 2 [SelClosed None, SelDone ctxDeadline]
      \<and> tokensReceived traceDeadline < 2 \<and> shutdownsInvoked traceDeadline = []"
    by simp
  have 3: "tokensReceived traceDeadline = 1"
    by (simp add: tokensReceived_def traceDeadline_def)
  from 1 2 3 r w d c f shutdownDrain shutdownDeadline show ?thesis by simp
qed

lemma shutdownQuiet:
  "ShutdownWorkers [SelClosed None, SelClosed None] shutdownOk [] brokerTUV
     = (brokerTUVdown, traceQuiet, Returns None)"
  by (simp add: ShutdownWorkers_def brokerTUV_def brokerTUVdown_def traceQuiet_def Let_def
      shutdownOk_def upt_rec)

lemma startU: "StartWorkers startOk 0 NewRedisBroker [confU] = (brokerU, [], None)"
  by (simp add: StartWorkers_def NewRedisBroker_def confU_def brokerU_def Let_def)

lemma shutdownU: "ShutdownWorkers [] shutdownOk [] brokerU = (brokerU\<lparr>running := 0\<rparr>, [], Returns None)"
  by (simp add: ShutdownWorkers_def brokerU_def Let_def)

text \<open>
  C8, as the claim states it, includes a broker started with zero pools. StartWorkers on
  a list whose only entry has concurrency 0 succeeds and leaves no pool; ShutdownWorkers
  then returns nil at the test of the number of pools, before the Close is deferred.
\<close>

theorem ShutdownWorkers_zero_pools_no_Close:
  "StartWorkers startOk 0 NewRedisBroker [confU] = (brokerU, [], None)
   \<and> running brokerU = 1
   \<and> ShutdownWorkers [] shutdownOk [] brokerU = (brokerU\<lparr>running := 0\<rparr>, [], Returns None)
   \<and> count_list (fst (snd (ShutdownWorkers [] shutdownOk [] brokerU))) EvClientClose \<noteq> 1"
  by (simp add: startU shutdownU) (simp add: brokerU_def)

lemma count_last_once:
  "x \<notin> set xs \<Longrightarrow> y \<noteq> x \<Longrightarrow> count_list (xs @ [y, x]) x = 1 \<and> last (xs @ [y, x]) = x"
  by (induction xs) auto

text \<open>
  C8, amended. ShutdownWorkers on a Running broker with at least one pool, when it
  returns (with the context error or after the pools were shut down), has called the
  client's Close exactly once, as its last action; while it blocks it has not called it.
  With zero pools it returns nil and does nothing else.
\<close>

theorem ShutdownWorkers_Close:
  assumes "running b = 1" and "ShutdownWorkers sel wShutdown arrival b = (b', tr, res)"
  shows "(workers b \<noteq> [] \<and> res \<noteq> Blocks
            \<longrightarrow> count_list tr EvClientClose = 1 \<and> last tr = EvClientClose)
       \<and> (workers b \<noteq> [] \<and> res = Blocks \<longrightarrow> count_list tr EvClientClose = 0)
       \<and> (workers b = [] \<longrightarrow> res = Returns None \<and> tr = [])"
proof (cases "workers b = []")
  case True
  with assms show ?thesis by (simp add: ShutdownWorkers_def Let_def)
next
  case False
  let ?n = "length (workers b)"
  let ?rs = "recvErrs ?n arrival (map wShutdown [0..<?n])"
  from ShutdownWorkers_shape [OF assms(1) False assms(2)]
  consider
    (blocks) k where "tr = EvPrintShuttingDown # replicate k EvRecvClosed" "res = Blocks"
  | (ctx) k err where
      "tr = EvPrintShuttingDown # replicate k EvRecvClosed
              @ [EvCtxDone, EvPrintFailed err, EvClientClose]"
      "res = Returns (Some err)"
  | (drain)
      "tr = EvPrintShuttingDown # replicate ?n EvRecvClosed
              @ map (\<lambda>w. EvGo (GoShutdown w)) (workers b)
              @ map EvRecvErr ?rs
              @ [case collectErrs None ?rs of Some e \<Rightarrow> EvPrintFailed e | None \<Rightarrow> EvPrintOk,
                 EvClientClose]"
      "res = Returns (collectErrs None ?rs)"
    by blast
  then show ?thesis
  proof cases
    case blocks
    have "EvClientClose \<notin> set tr" using blocks by simp
    then have "count_list tr EvClientClose = 0" by (rule count_notin)
    with blocks False show ?thesis by simp
  next
    case ctx
    let ?pre = "EvPrintShuttingDown # replicate k EvRecvClosed @ [EvCtxDone]"
    have n: "EvClientClose \<notin> set ?pre" by simp
    have p: "EvPrintFailed err \<noteq> EvClientClose" by simp
    have "tr = ?pre @ [EvPrintFailed err, EvClientClose]" using ctx by simp
    with count_last_once [OF n p]
    have "count_list tr EvClientClose = 1 \<and> last tr = EvClientClose"
      by (simp only:)
    with ctx False show ?thesis by simp
  next
    case drain
    let ?pre = "EvPrintShuttingDown # replicate ?n EvRecvClosed
              @ map (\<lambda>w. EvGo (GoShutdown w)) (workers b) @ map EvRecvErr ?rs"
    let ?p = "case collectErrs None ?rs of Some e \<Rightarrow> EvPrintFailed e | None \<Rightarrow> EvPrintOk"
    have n: "EvClientClose \<notin> set ?pre" by auto
    have p: "?p \<noteq> EvClientClose" by (simp split: option.splits)
    have "tr = ?pre @ [?p, EvClientClose]" using drain by simp
    with count_last_once [OF n p]
    have "count_list tr EvClientClose = 1 \<and> last tr = EvClientClose"
      by (simp only:)
    with drain False show ?thesis by simp
  qed
qed

theorem ShutdownWorkers_Close_witness:
  "running brokerTUV = 1 \<and> workers brokerTUV \<noteq> []
   \<and> ShutdownWorkers [SelClosed None, SelDone ctxDeadline] shutdownFails [] brokerTUV
       = (brokerTUVdown, traceDeadline, Returns (Some ctxDeadline))
   \<and> count_list traceDeadline EvClientClose = 1 \<and> last traceDeadline = EvClientClose
   \<and> running brokerU = 1 \<and> workers brokerU = []
   \<and> ShutdownWorkers [] shutdownOk [] brokerU = (brokerU\<lparr>running := 0\<rparr>, [], Returns None)"
proof -
  have r: "running brokerTUV = 1" by (simp add: brokerTUV_def)
  have w: "workers brokerTUV \<noteq> []" by (simp add: brokerTUV_def)
  have u: "running brokerU = 1" by (simp add: brokerU_def)
  have e: "workers brokerU = []" by (simp add: brokerU_def)
  from ShutdownWorkers_Close [OF r shutdownDeadline] w
  have 1: "count_list traceDeadline EvClientClose = 1 \<and> last traceDeadline = EvClientClose"
    by simp
  from 1 r w u e shutdownDeadline shutdownU show ?thesis by simp
qed

section \<open>The lifecycle of the flag\<close>

lemma startLoop_startOk: "startLoop startOk ws b = (b', evs, r) \<Longrightarrow> r = None"
  by (induction ws arbitrary: b b' evs)
     (auto simp: Let_def startOk_def split: if_splits prod.splits)

lemma startLoop_error_from_pool:
  "startLoop wStart ws b = (b', evs, Some e) \<Longrightarrow> \<exists>w ch. wStart w ch = Some e"
  by (induction ws arbitrary: b b' evs)
     (auto simp: Let_def split: if_splits option.splits prod.splits)

lemma StartWorkers_running:
  "running b = 0 \<Longrightarrow> running (fst (StartWorkers wStart nb b ws)) = 1"
proof -
  assume z: "running b = 0"
  obtain b' evs r where s: "startLoop wStart ws (b\<lparr>running := 1\<rparr>) = (b', evs, r)"
    by (cases "startLoop wStart ws (b\<lparr>running := 1\<rparr>)")
  from startLoop_running [OF s] have "running b' = 1" by simp
  with z s show ?thesis by (simp add: StartWorkers_def split: option.splits)
qed

lemma ShutdownWorkers_running:
  "running b = 1 \<Longrightarrow> running (fst (ShutdownWorkers sel wShutdown arrival b)) = 0"
  by (simp add: ShutdownWorkers_def Let_def split: prod.splits outcome.splits option.splits)

text \<open>
  C1, as the claim states it, makes a start after a shutdown fail with ErrClosed. The
  flag goes back to 0 in ShutdownWorkers, and 0 is the value StartWorkers swaps from:
  the third call below succeeds.
\<close>

theorem restart_after_shutdown:
  "StartWorkers startOk 0 NewRedisBroker [confT, confU, confV] = (brokerTUV, traceTUV, None)
   \<and> ShutdownWorkers [SelClosed None, SelClosed None] shutdownOk [] brokerTUV
       = (brokerTUVdown, traceQuiet, Returns None)
   \<and> snd (snd (StartWorkers startOk 0 brokerTUVdown [confV])) = None
   \<and> snd (snd (StartWorkers startOk 0 brokerTUVdown [confV])) \<noteq> Some ErrClosed"
  by (simp add: startTUV shutdownQuiet)
     (simp add: StartWorkers_def brokerTUVdown_def brokerTUV_def confV_def startOk_def Let_def)

text \<open>
  C1, amended. When StartWorkers has succeeded the flag went from 0 to 1, and a second
  StartWorkers before any shutdown fails with ErrClosed and changes nothing. When
  ShutdownWorkers has then been called the flag is 0 again, and a subsequent
  StartWorkers passes the compare-and-swap and sets the flag to 1: it returns nil when
  every pool starts, and it returns ErrClosed only if the Start of a pool returns it.
\<close>

theorem lifecycle_flag:
  assumes "StartWorkers wStart nb b ws = (b1, tr1, None)"
    and "ShutdownWorkers sel wShutdown arrival b1 = (b2, tr2, res)"
  shows "running b = 0 \<and> running b1 = 1 \<and> running b2 = 0
       \<and> StartWorkers wStart' nb' b1 ws' = (b1, [], Some ErrClosed)
       \<and> running (fst (StartWorkers wStart' nb' b2 ws')) = 1
       \<and> snd (snd (StartWorkers startOk nb' b2 ws')) = None
       \<and> (snd (snd (StartWorkers wStart' nb' b2 ws')) = Some ErrClosed
            \<longrightarrow> (\<exists>w ch. wStart' w ch = Some ErrClosed))"
proof -
  from assms(1) have r0: "running b = 0"
    by (rule StartWorkers_ok)
  from StartWorkers_running [OF r0, of wStart nb ws] assms(1) have r1: "running b1 = 1"
    by simp
  from ShutdownWorkers_running [OF r1, of sel wShutdown arrival] assms(2) have r2: "running b2 = 0"
    by simp
  have d: "StartWorkers wStart' nb' b1 ws' = (b1, [], Some ErrClosed)"
    using r1 by (simp add: StartWorkers_def)
  have ok: "snd (snd (StartWorkers startOk nb' b2 ws')) = None"
  proof -
    obtain b' evs r where s: "startLoop startOk ws' (b2\<lparr>running := 1\<rparr>) = (b', evs, r)"
      by (cases "startLoop startOk ws' (b2\<lparr>running := 1\<rparr>)")
    from startLoop_startOk [OF s] s r2 show ?thesis
      by (simp add: StartWorkers_def)
  qed
  have p: "\<exists>w ch. wStart' w ch = Some ErrClosed"
    if "snd (snd (StartWorkers wStart' nb' b2 ws')) = Some ErrClosed"
  proof -
    obtain b' evs r where s: "startLoop wStart' ws' (b2\<lparr>running := 1\<rparr>) = (b', evs, r)"
      by (cases "startLoop wStart' ws' (b2\<lparr>running := 1\<rparr>)")
    with that r2 have "r = Some ErrClosed"
      by (simp add: StartWorkers_def split: option.splits)
    with s show ?thesis by (auto dest: startLoop_error_from_pool)
  qed
  from r0 r1 r2 d ok p StartWorkers_running [OF r2, of wStart' nb' ws'] show ?thesis
    by blast
qed

theorem lifecycle_flag_witness:
  "StartWorkers startOk 0 NewRedisBroker [confT, confU, confV] = (brokerTUV, traceTUV, None)
   \<and> ShutdownWorkers [SelClosed None, SelClosed None] shutdownOk [] brokerTUV
       = (brokerTUVdown, traceQuiet, Returns None)
   \<and> running NewRedisBroker = 0 \<and> running brokerTUV = 1 \<and> running brokerTUVdown = 0
   \<and> StartWorkers startOk 0 brokerTUV [confV] = (brokerTUV, [], Some ErrClosed)
   \<and> running (fst (StartWorkers startOk 0 brokerTUVdown [confV])) = 1
   \<and> snd (snd (StartWorkers startOk 0 brokerTUVdown [confV])) = None"
  using lifecycle_flag [OF startTUV shutdownQuiet, where wStart' = startOk and nb' = 0
      and ws' = "[confV]"] startTUV shutdownQuiet
  by simp

section \<open>pollLoop\<close>

text \<open>Both operations on the flag keep it 0 or 1: a poll loop loads nothing else.\<close>

lemma flagOK_StartWorkers:
  "flagOK b \<Longrightarrow> StartWorkers wStart nb b ws = (b', evs, r) \<Longrightarrow> flagOK b'"
  by (auto simp: flagOK_def StartWorkers_def split: if_splits prod.splits option.splits
      dest: startLoop_running)

lemma flagOK_ShutdownWorkers:
  "flagOK b \<Longrightarrow> ShutdownWorkers sel wSh arr b = (b', evs, r) \<Longrightarrow> flagOK b'"
  by (auto simp: flagOK_def ShutdownWorkers_def Let_def
      split: if_splits prod.splits option.splits outcome.splits)

lemma brpops_append: "brpops (xs @ ys) = brpops xs @ brpops ys"
  by (induction xs rule: brpops.induct) simp_all

lemma brpops_pollIteration:
  "brpops (pollIteration key ch it) = [(redisBRPopTimeout, pollKeys key (intn3 it))]"
  by (simp add: pollIteration_def Let_def split: prod.splits sum.splits)

lemma brpops_pollLoop:
  "brpops (fst (pollLoop key ch received its))
     = map (\<lambda>it. (redisBRPopTimeout, pollKeys key (intn3 it)))
         (takeWhile (\<lambda>it. loadRunning it \<noteq> 0) its)"
  by (induction its) (simp_all add: brpops_append brpops_pollIteration case_prod_beta)

lemma pollKeys_explicit:
  "pollKeys (redisPrefix @ wt) r
     = (if r = 0 then (''j/'' @ wt, ''j/'' @ wt @ ''/p0'') else (''j/'' @ wt @ ''/p0'', ''j/'' @ wt))"
  by (simp add: pollKeys_def redisPrefix_def redisHighPrioritySuffix_def Let_def)

lemma swap_draws: "{r. r < 3 \<and> fst (pollKeys key r) = key} = {0}"
  by (auto simp: pollKeys_def redisHighPrioritySuffix_def Let_def)

text \<open>
  C2. The poll loop of a worker type \<open>wt\<close> runs on the key \<open>j/wt\<close>. Every iteration
  it starts (the flag loaded at its head is not 0) issues one blocking pop, with the
  timeout of 10 seconds, on the manual lane \<open>j/wt/p0\<close> first and the normal lane
  \<open>j/wt\<close> second, except when its draw is 0: then on the normal lane first and the
  manual lane second. Of the three draws 0, 1, 2 exactly one, 0, puts the normal lane
  first.
\<close>

theorem pollLoop_pops:
  "brpops (fst (pollLoop (redisPrefix @ wt) ch received its))
     = map (\<lambda>it. (10 * Second,
                  if intn3 it = 0 then (''j/'' @ wt, ''j/'' @ wt @ ''/p0'')
                  else (''j/'' @ wt @ ''/p0'', ''j/'' @ wt)))
         (takeWhile (\<lambda>it. loadRunning it \<noteq> 0) its)
   \<and> {r. r < 3 \<and> fst (pollKeys (redisPrefix @ wt) r) = redisPrefix @ wt} = {0}"
proof
  show "brpops (fst (pollLoop (redisPrefix @ wt) ch received its))
     = map (\<lambda>it. (10 * Second,
                  if intn3 it = 0 then (''j/'' @ wt, ''j/'' @ wt @ ''/p0'')
                  else (''j/'' @ wt @ ''/p0'', ''j/'' @ wt)))
         (takeWhile (\<lambda>it. loadRunning it \<noteq> 0) its)"
    unfolding brpops_pollLoop pollKeys_explicit redisBRPopTimeout_def by (rule refl)
  show "{r. r < 3 \<and> fst (pollKeys (redisPrefix @ wt) r) = redisPrefix @ wt} = {0}"
    by (rule swap_draws)
qed

theorem pollLoop_pops_witness:
  "brpops (fst (pollLoop ''j/t'' 0 True [iterJob, iterTimeout, iterStop]))
     = [(10000000000, ''j/t/p0'', ''j/t''), (10000000000, ''j/t'', ''j/t/p0'')]"
  using pollLoop_pops [of "''t''" 0 True "[iterJob, iterTimeout, iterStop]"]
  by (simp add: redisPrefix_def iterJob_def iterTimeout_def iterStop_def Second_def
      Millisecond_def)

lemma SplitN2_none: "sep \<notin> set s \<Longrightarrow> SplitN2 s sep = [s]"
  by (simp add: SplitN2_def)

lemma SplitN2_first:
  "sep \<notin> set a \<Longrightarrow> SplitN2 (a @ sep # b) sep = [a, b]"
  by (induction a) (auto simp: SplitN2_def)

lemma pushAttempts_pollIteration: "pushAttempts (pollIteration key ch it) = []"
  by (simp add: pollIteration_def Let_def split: prod.splits sum.splits)

lemma SplitN2_length: "length (SplitN2 s sep) = 2 \<longleftrightarrow> sep \<in> set s"
  by (simp add: SplitN2_def)

lemma SplitN2_parts:
  assumes "sep \<in> set s"
  shows "s = SplitN2 s sep ! 0 @ sep # SplitN2 s sep ! 1" and "sep \<notin> set (SplitN2 s sep ! 0)"
proof -
  let ?a = "takeWhile (\<lambda>c. c \<noteq> sep) s" and ?d = "dropWhile (\<lambda>c. c \<noteq> sep) s"
  have ne: "?d \<noteq> []" using assms by simp
  then have "hd ?d = sep" using hd_dropWhile [of "\<lambda>c. c \<noteq> sep" s] by simp
  with ne have d: "?d = sep # tl ?d" by (cases ?d) simp_all
  have "s = ?a @ ?d" by simp
  with d have "s = ?a @ sep # tl ?d" by simp
  with assms show "s = SplitN2 s sep ! 0 @ sep # SplitN2 s sep ! 1"
    by (simp add: SplitN2_def)
  have "sep \<notin> set ?a" using set_takeWhileD by fastforce
  with assms show "sep \<notin> set (SplitN2 s sep ! 0)" by (simp add: SplitN2_def)
qed

lemma pollIteration_sleep:
  "snd (brpopResult it) \<noteq> None \<or> length (fst (brpopResult it)) < 2 \<Longrightarrow>
     pollIteration key ch it = [thePop key it, EvSleep (100 * Millisecond)]"
  by (auto simp: pollIteration_def split: prod.splits)

lemma pollIteration_key:
  "brpopResult it = (rkey # rval # rest, None) \<Longrightarrow> length rkey < length ''j/'' \<Longrightarrow>
     pollIteration key ch it = [thePop key it, EvWarnf (InvalidKey rkey)]"
  by (simp add: pollIteration_def redisPrefix_def Let_def split: prod.splits)

lemma pollIteration_val:
  "brpopResult it = (rkey # rval # rest, None) \<Longrightarrow> length ''j/'' \<le> length rkey \<Longrightarrow>
   CHR ''/'' \<notin> set rval \<Longrightarrow>
     pollIteration key ch it = [thePop key it, EvWarnf (InvalidVal rval)]"
  by (simp add: pollIteration_def redisPrefix_def Let_def SplitN2_none split: prod.splits)

lemma pollIteration_unknown:
  "brpopResult it = (rkey # (domain @ ''/'' @ jobID) # rest, None) \<Longrightarrow>
   length ''j/'' \<le> length rkey \<Longrightarrow> CHR ''/'' \<notin> set domain \<Longrightarrow>
   getJob it domain jobID = Inl e \<Longrightarrow>
     pollIteration key ch it
       = [thePop key it, EvGet domain jobID, EvWarnf (CannotFindJob jobID domain e)]"
  by (simp add: pollIteration_def redisPrefix_def Let_def SplitN2_first split: prod.splits)

lemma pollIteration_delivered:
  assumes "delivered (pollIteration key ch it) \<noteq> []"
  shows "\<exists>rkey domain jobID rest job.
           brpopResult it = (rkey # (domain @ ''/'' @ jobID) # rest, None)
           \<and> length ''j/'' \<le> length rkey \<and> CHR ''/'' \<notin> set domain
           \<and> getJob it domain jobID = Inr job
           \<and> delivered (pollIteration key ch it) = [(ch, job)]"
proof -
  obtain results err where r: "brpopResult it = (results, err)"
    by (cases "brpopResult it")
  from assms r have e: "err = None" and l: "\<not> length results < 2"
    by (auto simp: pollIteration_def split: prod.splits if_splits)
  from l obtain rkey rval rest where rs: "results = rkey # rval # rest"
    by (cases results; cases "tl results") auto
  from assms r e rs have k: "length ''j/'' \<le> length rkey"
    by (auto simp: pollIteration_def redisPrefix_def Let_def split: prod.splits if_splits)
  from assms r e rs k have sl: "CHR ''/'' \<in> set rval"
    by (auto simp: pollIteration_def redisPrefix_def Let_def SplitN2_length
        split: prod.splits if_splits)
  let ?d = "SplitN2 rval CHR ''/'' ! 0" and ?j = "SplitN2 rval CHR ''/'' ! 1"
  from SplitN2_parts [OF sl] have v: "rval = ?d @ ''/'' @ ?j" and nd: "CHR ''/'' \<notin> set ?d"
    by simp_all
  from assms r e rs k sl obtain job where g: "getJob it ?d ?j = Inr job"
    and dl: "delivered (pollIteration key ch it) = [(ch, job)]"
    by (auto simp: pollIteration_def redisPrefix_def Let_def SplitN2_length
        split: prod.splits if_splits sum.splits)
  from r e rs v have "brpopResult it = (rkey # (?d @ ''/'' @ ?j) # rest, None)" by simp
  with k nd g dl show ?thesis by blast
qed

lemma pollLoop_continues:
  "loadRunning it \<noteq> 0 \<Longrightarrow>
     pollLoop key ch received (it # its)
       = (pollIteration key ch it @ fst (pollLoop key ch received its), snd (pollLoop key ch received its))"
  by (simp split: prod.splits)

text \<open>
  C6, as the claim states it, has the payload logged when the matched key is shorter
  than the prefix. The warning of that case prints the key; the payload is dropped
  without being printed.
\<close>

theorem pollIteration_short_key_logs_key:
  "brpopResult iterShortKey = ([''j'', ''a.example/42''], None)
   \<and> warnings (pollIteration ''j/t'' 0 iterShortKey) = [InvalidKey ''j'']
   \<and> ''a.example/42'' \<notin> set (loggedStrings (pollIteration ''j/t'' 0 iterShortKey))"
  by (simp add: iterShortKey_def pollIteration_def pollKeys_def Let_def redisPrefix_def
      loggedStrings_def)

text \<open>
  C6, amended. One iteration of the poll loop, after its pop.
  \<^item> The pop returns an error, or fewer than 2 fields: a sleep of 100 ms, nothing else.
  \<^item> The matched key is shorter than the prefix \<open>j/\<close>: a warning that names the key,
    nothing else.
  \<^item> The payload holds no \<open>/\<close>: a warning that names the payload, nothing else.
  \<^item> The store cannot resolve the domain and job id of the payload: the lookup and a
    warning that names both, nothing else.
  In the last three there is no sleep. A job is sent on the feed channel only when the
  key is long enough, the payload splits at its first \<open>/\<close> and the store resolves it;
  no iteration pushes anything on a queue; and after any iteration the loop goes on with
  the next one.
\<close>

theorem pollIteration_failures:
  "(snd (brpopResult it) \<noteq> None \<or> length (fst (brpopResult it)) < 2 \<longrightarrow>
      pollIteration key ch it = [thePop key it, EvSleep (100 * Millisecond)])
   \<and> (brpopResult it = (rkey # rval # rest, None) \<and> length rkey < length ''j/'' \<longrightarrow>
      pollIteration key ch it = [thePop key it, EvWarnf (InvalidKey rkey)])
   \<and> (brpopResult it = (rkey # rval # rest, None) \<and> length ''j/'' \<le> length rkey
        \<and> CHR ''/'' \<notin> set rval \<longrightarrow>
      pollIteration key ch it = [thePop key it, EvWarnf (InvalidVal rval)])
   \<and> (brpopResult it = (rkey # (domain @ ''/'' @ jobID) # rest, None)
        \<and> length ''j/'' \<le> length rkey \<and> CHR ''/'' \<notin> set domain
        \<and> getJob it domain jobID = Inl e \<longrightarrow>
      pollIteration key ch it
        = [thePop key it, EvGet domain jobID, EvWarnf (CannotFindJob jobID domain e)])
   \<and> (delivered (pollIteration key ch it) \<noteq> [] \<longrightarrow>
        (\<exists>rkey domain jobID rest job.
           brpopResult it = (rkey # (domain @ ''/'' @ jobID) # rest, None)
           \<and> length ''j/'' \<le> length rkey \<and> CHR ''/'' \<notin> set domain
           \<and> getJob it domain jobID = Inr job
           \<and> delivered (pollIteration key ch it) = [(ch, job)]))
   \<and> pushAttempts (pollIteration key ch it) = []
   \<and> (loadRunning it \<noteq> 0 \<longrightarrow>
        pollLoop key ch received (it # its)
          = (pollIteration key ch it @ fst (pollLoop key ch received its), snd (pollLoop key ch received its)))"
  using pollIteration_sleep [of it key ch]
    pollIteration_key [of it rkey rval rest key ch]
    pollIteration_val [of it rkey rval rest key ch]
    pollIteration_unknown [of it rkey domain jobID rest e key ch]
    pollIteration_delivered [of key ch it]
    pushAttempts_pollIteration [of key ch it]
    pollLoop_continues [of it key ch received its]
  by (intro conjI impI) blast+

theorem pollIteration_failures_witness:
  "pollIteration ''j/t'' 0 iterTimeout
     = [EvBRPop 10000000000 ''j/t'' ''j/t/p0'', EvSleep 100000000]
   \<and> pollIteration ''j/t'' 0 iterShortKey
     = [EvBRPop 10000000000 ''j/t/p0'' ''j/t'', EvWarnf (InvalidKey ''j'')]
   \<and> pollIteration ''j/t'' 0 iterNoSlash
     = [EvBRPop 10000000000 ''j/t/p0'' ''j/t'', EvWarnf (InvalidVal ''nodomain'')]
   \<and> pollIteration ''j/t'' 0 iterUnknown
     = [EvBRPop 10000000000 ''j/t'' ''j/t/p0'', EvGet ''a.example'' ''7'',
        EvWarnf (CannotFindJob ''7'' ''a.example'' (ExtError ''not_found''))]
   \<and> delivered (pollIteration ''j/t'' 0 iterJob) = [(0, jobT)]
   \<and> snd (pollLoop ''j/t'' 0 True [iterTimeout, iterStop]) = Exited"
proof -
  have a: "snd (brpopResult iterTimeout) \<noteq> None \<or> length (fst (brpopResult iterTimeout)) < 2"
    by (simp add: iterTimeout_def)
  have b: "brpopResult iterShortKey = ([''j'', ''a.example/42''], None) \<and> length ''j'' < length ''j/''"
    by (simp add: iterShortKey_def)
  have c: "brpopResult iterNoSlash = ([''j/t'', ''nodomain''], None)
      \<and> length ''j/'' \<le> length ''j/t'' \<and> CHR ''/'' \<notin> set ''nodomain''"
    by (simp add: iterNoSlash_def)
  have d: "brpopResult iterUnknown = ([''j/t/p0'', ''a.example'' @ ''/'' @ ''7''], None)
      \<and> length ''j/'' \<le> length ''j/t/p0'' \<and> CHR ''/'' \<notin> set ''a.example''
      \<and> getJob iterUnknown ''a.example'' ''7'' = Inl (ExtError ''not_found'')"
    by (simp add: iterUnknown_def storeT_def)
  have e: "delivered (pollIteration ''j/t'' 0 iterJob) = [(0, jobT)]"
    by (simp add: pollIteration_def iterJob_def pollKeys_def Let_def redisPrefix_def
        SplitN2_def storeT_def)
  have f: "loadRunning iterTimeout \<noteq> 0" by (simp add: iterTimeout_def)
  have k: "fst (pollKeys ''j/t'' (intn3 iterTimeout)) = ''j/t''
      \<and> snd (pollKeys ''j/t'' (intn3 iterTimeout)) = ''j/t/p0''
      \<and> fst (pollKeys ''j/t'' (intn3 iterShortKey)) = ''j/t/p0''
      \<and> snd (pollKeys ''j/t'' (intn3 iterShortKey)) = ''j/t''
      \<and> fst (pollKeys ''j/t'' (intn3 iterNoSlash)) = ''j/t/p0''
      \<and> snd (pollKeys ''j/t'' (intn3 iterNoSlash)) = ''j/t''
      \<and> fst (pollKeys ''j/t'' (intn3 iterUnknown)) = ''j/t''
      \<and> snd (pollKeys ''j/t'' (intn3 iterUnknown)) = ''j/t/p0''"
    by (simp add: pollKeys_def Let_def redisHighPrioritySuffix_def iterTimeout_def
        iterShortKey_def iterNoSlash_def iterUnknown_def)
  have t: "redisBRPopTimeout = 10000000000 \<and> 100 * Millisecond = 100000000"
    by (simp add: redisBRPopTimeout_def Second_def Millisecond_def)
  have s: "snd (pollLoop ''j/t'' 0 True [iterStop]) = Exited" by (simp add: iterStop_def)
  let ?any = "[] :: string"
  from a pollIteration_failures [where it = iterTimeout and key = "''j/t''" and ch = 0
      and received = True and its = "[iterStop]" and rkey = ?any and rval = ?any and rest = "[]"
      and domain = ?any and jobID = ?any and e = ErrClosed]
  have 1: "pollIteration ''j/t'' 0 iterTimeout
      = [thePop ''j/t'' iterTimeout, EvSleep (100 * Millisecond)]"
    by blast
  from f pollIteration_failures [where it = iterTimeout and key = "''j/t''" and ch = 0
      and received = True and its = "[iterStop]" and rkey = ?any and rval = ?any and rest = "[]"
      and domain = ?any and jobID = ?any and e = ErrClosed]
  have 5: "pollLoop ''j/t'' 0 True [iterTimeout, iterStop]
      = (pollIteration ''j/t'' 0 iterTimeout @ fst (pollLoop ''j/t'' 0 True [iterStop]),
         snd (pollLoop ''j/t'' 0 True [iterStop]))"
    by blast
  from b pollIteration_failures [where it = iterShortKey and key = "''j/t''" and ch = 0
      and its = "[]" and rkey = "''j''" and rval = "''a.example/42''" and rest = "[]"
      and domain = ?any and jobID = ?any and e = ErrClosed]
  have 2: "pollIteration ''j/t'' 0 iterShortKey
      = [thePop ''j/t'' iterShortKey, EvWarnf (InvalidKey ''j'')]"
    by blast
  from c pollIteration_failures [where it = iterNoSlash and key = "''j/t''" and ch = 0
      and its = "[]" and rkey = "''j/t''" and rval = "''nodomain''" and rest = "[]"
      and domain = ?any and jobID = ?any and e = ErrClosed]
  have 3: "pollIteration ''j/t'' 0 iterNoSlash
      = [thePop ''j/t'' iterNoSlash, EvWarnf (InvalidVal ''nodomain'')]"
    by blast
  from d pollIteration_failures [where it = iterUnknown and key = "''j/t''" and ch = 0
      and its = "[]" and rkey = "''j/t/p0''" and rval = ?any and rest = "[]"
      and domain = "''a.example''" and jobID = "''7''" and e = "ExtError ''not_found''"]
  have 4: "pollIteration ''j/t'' 0 iterUnknown
      = [thePop ''j/t'' iterUnknown, EvGet ''a.example'' ''7'',
         EvWarnf (CannotFindJob ''7'' ''a.example'' (ExtError ''not_found''))]"
    by blast
  from 1 2 3 4 5 e k t s show ?thesis by simp
qed

lemma no_token_in_iteration: "EvSendClosed \<notin> set (pollIteration key ch it)"
  by (auto simp: pollIteration_def Let_def split: prod.splits sum.splits if_splits)

lemma no_token_in_iterations:
  "EvSendClosed \<notin> set (concat (map (pollIteration key ch) its))"
  by (simp add: no_token_in_iteration)

text \<open>
  The trace and the state of the loop: the iterations before the first load of 0, in
  order, nothing of a later one; then the token when the send is received.
\<close>

lemma pollLoop_trace:
  "pollLoop key ch received its
     = (concat (map (pollIteration key ch) (takeWhile (\<lambda>it. loadRunning it \<noteq> 0) its))
          @ (if (\<exists>it\<in>set its. loadRunning it = 0) \<and> received then [EvSendClosed] else []),
        if (\<exists>it\<in>set its. loadRunning it = 0)
        then (if received then Exited else SendBlocked) else Looping)"
  by (induction its) simp_all

lemma pollLoop_answers_irrelevant:
  "snd (pollLoop key ch received
          (map (\<lambda>it. it\<lparr>brpopResult := answer it, getJob := store it\<rparr>) its))
     = snd (pollLoop key ch received its)"
  by (induction its) (simp_all add: case_prod_beta)

text \<open>
  C7, as the claim states it, has the loop exit, with one token written, whenever it
  loads a flag that is not Running. The token is sent on an unbuffered channel whose
  only receiver is the waiting loop of ShutdownWorkers. When that call has returned the
  context error (or taken its tokens from other loops only) nobody receives: below the
  loop loads 0 at the head of its second iteration, stays blocked in the deferred send,
  does not exit and writes no token.
\<close>

theorem pollLoop_send_blocks:
  "loadRunning iterStop \<noteq> 1
   \<and> snd (pollLoop ''j/t'' 0 False [iterTimeout, iterStop]) = SendBlocked
   \<and> snd (pollLoop ''j/t'' 0 False [iterTimeout, iterStop]) \<noteq> Exited
   \<and> count_list (fst (pollLoop ''j/t'' 0 False [iterTimeout, iterStop])) EvSendClosed = 0"
  by (simp add: iterStop_def iterTimeout_def pollIteration_def pollKeys_def Let_def)

text \<open>
  C7, amended. The flag loaded at the head of each iteration is 0 or 1. The loop leaves
  its \<^verbatim>\<open>for\<close> if and only if one of the loads is not Running; it has then run exactly
  the iterations before the first such load, and it runs them all while there is none.
  Having left, it sends one token on \<open>closed\<close> in its deferred function: when the send
  is received the trace ends with that one token and the loop has exited; when it is
  not, no token is written and the loop stays blocked in the send. While it has not left
  the \<^verbatim>\<open>for\<close> it writes no token. Whether and where it leaves does not depend on what
  the pops and the store answer.
\<close>

theorem pollLoop_exit:
  assumes "\<forall>it\<in>set its. loadRunning it = 0 \<or> loadRunning it = 1"
  shows "fst (pollLoop key ch received its)
           = concat (map (pollIteration key ch) (takeWhile (\<lambda>it. loadRunning it = 1) its))
               @ (if (\<exists>it\<in>set its. loadRunning it \<noteq> 1) \<and> received
                  then [EvSendClosed] else [])
       \<and> snd (pollLoop key ch received its)
           = (if (\<exists>it\<in>set its. loadRunning it \<noteq> 1)
              then (if received then Exited else SendBlocked) else Looping)
       \<and> count_list (fst (pollLoop key ch received its)) EvSendClosed
           = (if snd (pollLoop key ch received its) = Exited then 1 else 0)
       \<and> (snd (pollLoop key ch received its) = Exited
            \<longrightarrow> last (fst (pollLoop key ch received its)) = EvSendClosed)
       \<and> snd (pollLoop key ch received
                 (map (\<lambda>it. it\<lparr>brpopResult := answer it, getJob := store it\<rparr>) its))
           = snd (pollLoop key ch received its)"
proof -
  let ?ran = "concat (map (pollIteration key ch) (takeWhile (\<lambda>it. loadRunning it = 1) its))"
  have flag: "loadRunning it \<noteq> 0 \<longleftrightarrow> loadRunning it = 1" if "it \<in> set its" for it
    using assms that by auto
  then have tw: "takeWhile (\<lambda>it. loadRunning it \<noteq> 0) its
      = takeWhile (\<lambda>it. loadRunning it = 1) its"
    by (intro takeWhile_cong) simp_all
  have ex: "(\<exists>it\<in>set its. loadRunning it = 0) \<longleftrightarrow> (\<exists>it\<in>set its. loadRunning it \<noteq> 1)"
    using flag by blast
  have tr: "fst (pollLoop key ch received its)
      = ?ran @ (if (\<exists>it\<in>set its. loadRunning it \<noteq> 1) \<and> received then [EvSendClosed] else [])"
    unfolding pollLoop_trace tw ex by simp
  have st: "snd (pollLoop key ch received its)
      = (if (\<exists>it\<in>set its. loadRunning it \<noteq> 1)
         then (if received then Exited else SendBlocked) else Looping)"
    unfolding pollLoop_trace ex by simp
  have zero: "count_list ?ran EvSendClosed = 0"
    by (rule count_notin) (rule no_token_in_iterations)
  have cnt: "count_list (fst (pollLoop key ch received its)) EvSendClosed
      = (if snd (pollLoop key ch received its) = Exited then 1 else 0)"
    unfolding tr st using zero by (simp add: count_list_append)
  have lst: "last (fst (pollLoop key ch received its)) = EvSendClosed"
    if "snd (pollLoop key ch received its) = Exited"
    using that unfolding tr st by (auto split: if_splits)
  from tr st cnt lst
    pollLoop_answers_irrelevant [where key = key and ch = ch and received = received
        and answer = answer and store = store and its = its]
  show ?thesis by blast
qed

theorem pollLoop_exit_witness:
  "(loadRunning iterTimeout = 0 \<or> loadRunning iterTimeout = 1)
   \<and> (loadRunning iterNoSlash = 0 \<or> loadRunning iterNoSlash = 1)
   \<and> (loadRunning iterStop = 0 \<or> loadRunning iterStop = 1)
   \<and> pollLoop ''j/t'' 0 True [iterTimeout, iterNoSlash, iterStop, iterJob]
       = (pollIteration ''j/t'' 0 iterTimeout @ pollIteration ''j/t'' 0 iterNoSlash
            @ [EvSendClosed], Exited)
   \<and> count_list (fst (pollLoop ''j/t'' 0 True [iterTimeout, iterNoSlash, iterStop, iterJob]))
        EvSendClosed = 1
   \<and> pollLoop ''j/t'' 0 False [iterTimeout, iterNoSlash, iterStop, iterJob]
       = (pollIteration ''j/t'' 0 iterTimeout @ pollIteration ''j/t'' 0 iterNoSlash,
          SendBlocked)
   \<and> pollLoop ''j/t'' 0 True [iterTimeout, iterNoSlash]
       = (pollIteration ''j/t'' 0 iterTimeout @ pollIteration ''j/t'' 0 iterNoSlash, Looping)
   \<and> count_list (fst (pollLoop ''j/t'' 0 True [iterTimeout, iterNoSlash])) EvSendClosed = 0"
proof -
  have a: "\<forall>it\<in>set [iterTimeout, iterNoSlash, iterStop, iterJob].
             loadRunning it = 0 \<or> loadRunning it = 1"
    by (simp add: iterTimeout_def iterNoSlash_def iterStop_def iterJob_def)
  have b: "\<forall>it\<in>set [iterTimeout, iterNoSlash]. loadRunning it = 0 \<or> loadRunning it = 1"
    by (simp add: iterTimeout_def iterNoSlash_def)
  have l: "loadRunning iterTimeout = 1 \<and> loadRunning iterNoSlash = 1 \<and> loadRunning iterStop = 0"
    by (simp add: iterTimeout_def iterNoSlash_def iterStop_def)
  from pollLoop_exit [OF a, where key = "''j/t''" and ch = 0 and received = True] l
  have 1: "pollLoop ''j/t'' 0 True [iterTimeout, iterNoSlash, iterStop, iterJob]
       = (pollIteration ''j/t'' 0 iterTimeout @ pollIteration ''j/t'' 0 iterNoSlash
            @ [EvSendClosed], Exited)
     \<and> count_list (fst (pollLoop ''j/t'' 0 True [iterTimeout, iterNoSlash, iterStop, iterJob]))
        EvSendClosed = 1"
    by (simp add: prod_eq_iff)
  from pollLoop_exit [OF a, where key = "''j/t''" and ch = 0 and received = False] l
  have 2: "pollLoop ''j/t'' 0 False [iterTimeout, iterNoSlash, iterStop, iterJob]
       = (pollIteration ''j/t'' 0 iterTimeout @ pollIteration ''j/t'' 0 iterNoSlash,
          SendBlocked)"
    by (simp add: prod_eq_iff)
  from pollLoop_exit [OF b, where key = "''j/t''" and ch = 0 and received = True] l
  have 3: "pollLoop ''j/t'' 0 True [iterTimeout, iterNoSlash]
       = (pollIteration ''j/t'' 0 iterTimeout @ pollIteration ''j/t'' 0 iterNoSlash, Looping)
     \<and> count_list (fst (pollLoop ''j/t'' 0 True [iterTimeout, iterNoSlash])) EvSendClosed = 0"
    by (simp add: prod_eq_iff)
  from 1 2 3 l show ?thesis by simp
qed

end
